theory Spec2Isabelle
  imports Main "HOL-Library.AList"
begin

section \<open>Paths\<close>

text \<open>
  \<^verbatim>\<open>setup.py\<close> computes every path with \<^verbatim>\<open>pathlib\<close>:
  \<^verbatim>\<open>project_root = Path(__file__).parent\<close> and
  \<^verbatim>\<open>tmp_repo = project_root / "tmp_hf_repo"\<close>.
  A pure path is its anchor (is there a root?) and the list of its components.
  \<^verbatim>\<open>Path.parent\<close> drops the last component and leaves a path without components
  as it is (\<^verbatim>\<open>Path(".").parent == Path(".")\<close>, \<^verbatim>\<open>Path("/").parent == Path("/")\<close>);
  \<^verbatim>\<open>p / "name"\<close>, for a plain name as in every use of the script, appends one
  component. Neither touches the anchor: the script calls neither \<^verbatim>\<open>resolve()\<close> nor
  \<^verbatim>\<open>absolute()\<close>.
\<close>

type_synonym name = string
type_synonym path = "name list"

record pure_path =
  root :: bool
  parts :: "name list"

definition is_absolute :: "pure_path \<Rightarrow> bool" where
  "is_absolute p = root p"

definition parent :: "pure_path \<Rightarrow> pure_path" where
  "parent p = p\<lparr>parts := butlast (parts p)\<rparr>"

definition joinpath :: "pure_path \<Rightarrow> name \<Rightarrow> pure_path" where
  "joinpath p n = p\<lparr>parts := parts p @ [n]\<rparr>"

text \<open>Lines 7 and 8 of the script; \<open>file\<close> is \<^verbatim>\<open>Path(__file__)\<close>.\<close>

definition project_root :: "pure_path \<Rightarrow> pure_path" where
  "project_root file = parent file"

definition tmp_repo :: "pure_path \<Rightarrow> pure_path" where
  "tmp_repo file = joinpath (project_root file) ''tmp_hf_repo''"

section \<open>The file system below the project root\<close>

text \<open>
  Every path the script opens is \<^verbatim>\<open>project_root\<close> followed by plain names, so the
  state is the content of the directory that \<^verbatim>\<open>project_root\<close> denotes: a tree of
  regular files (their bytes) and directories (their entries, in listing order).
  Symbolic links, special files, permissions and a full disk are outside the model.
  \<open>below base p\<close> is the list of names that leads from \<open>base\<close> to \<open>p\<close>.
\<close>

datatype node = File string | Dir "(name \<times> node) list"

type_synonym dir = "(name \<times> node) list"

definition below :: "pure_path \<Rightarrow> pure_path \<Rightarrow> path" where
  "below base p = drop (length (parts base)) (parts p)"

fun lookup :: "dir \<Rightarrow> path \<Rightarrow> node option" where
  "lookup fs [] = Some (Dir fs)"
| "lookup fs (n # p) =
     (case map_of fs n of
        None \<Rightarrow> None
      | Some (File c) \<Rightarrow> (if p = [] then Some (File c) else None)
      | Some (Dir ch) \<Rightarrow> lookup ch p)"

text \<open>\<^verbatim>\<open>Path.exists()\<close> and \<^verbatim>\<open>Path.is_dir()\<close>.\<close>

definition exists :: "dir \<Rightarrow> path \<Rightarrow> bool" where
  "exists fs p = (lookup fs p \<noteq> None)"

definition is_dir :: "dir \<Rightarrow> path \<Rightarrow> bool" where
  "is_dir fs p = (case lookup fs p of Some (Dir _) \<Rightarrow> True | _ \<Rightarrow> False)"

text \<open>The entries of the directory at \<open>p\<close>; none when \<open>p\<close> is not a directory.\<close>

definition subdir :: "dir \<Rightarrow> path \<Rightarrow> dir" where
  "subdir fs p = (case lookup fs p of Some (Dir c) \<Rightarrow> c | _ \<Rightarrow> [])"

text \<open>
  Two paths diverge when they differ at a component both have: neither is then an
  ancestor of the other, nor equal to it.
\<close>

fun diverge :: "path \<Rightarrow> path \<Rightarrow> bool" where
  "diverge (a # p) (b # q) = (a \<noteq> b \<or> diverge p q)"
| "diverge _ _ = False"

text \<open>Replacing the entries of the directory at a path (the write of every operation).\<close>

fun put :: "path \<Rightarrow> dir \<Rightarrow> dir \<Rightarrow> dir" where
  "put [] c fs = c"
| "put (n # p) c fs =
     (case map_of fs n of
        Some (Dir ch) \<Rightarrow> AList.update n (Dir (put p c ch)) fs
      | _ \<Rightarrow> fs)"

section \<open>Errors\<close>

text \<open>
  The exceptions of the run. \<open>FileNotFoundError\<close> is what the script raises for a
  missing remote folder (the specification's MissingSourceError); \<open>CloneError\<close> stands
  for whatever \<^verbatim>\<open>Repository(...)\<close> raises (the specification's FetchError);
  \<open>ShutilError\<close> is \<^verbatim>\<open>shutil.Error\<close>.
\<close>

datatype error =
    NotADirectoryError
  | FileExistsError
  | FileNotFoundError
  | CloneError
  | ShutilError

section \<open>Library operations\<close>

text \<open>
  \<^verbatim>\<open>shutil.rmtree(path)\<close> with the default error handler: a directory is removed with
  all it holds; a regular file makes \<^verbatim>\<open>os.scandir\<close> fail with
  \<^verbatim>\<open>NotADirectoryError\<close>, which is re-raised; a missing path raises
  \<^verbatim>\<open>FileNotFoundError\<close>. The project root itself is never the argument.
\<close>

fun rmtree :: "path \<Rightarrow> dir \<Rightarrow> error + dir" where
  "rmtree [] fs = Inr []"
| "rmtree [n] fs =
     (case map_of fs n of
        None \<Rightarrow> Inl FileNotFoundError
      | Some (File c) \<Rightarrow> Inl NotADirectoryError
      | Some (Dir ch) \<Rightarrow> Inr (AList.delete n fs))"
| "rmtree (n # p) fs =
     (case map_of fs n of
        None \<Rightarrow> Inl FileNotFoundError
      | Some (File c) \<Rightarrow> Inl NotADirectoryError
      | Some (Dir ch) \<Rightarrow>
          (case rmtree p ch of
             Inl e \<Rightarrow> Inl e
           | Inr ch' \<Rightarrow> Inr (AList.update n (Dir ch') fs)))"

text \<open>
  \<^verbatim>\<open>Path.mkdir(parents=True, exist_ok=True)\<close>, which is also what
  \<^verbatim>\<open>os.makedirs(dst, exist_ok=True)\<close> does: missing directories along the path are
  created, existing ones are kept. A regular file at the path itself raises
  \<^verbatim>\<open>FileExistsError\<close>, a regular file at an ancestor \<^verbatim>\<open>NotADirectoryError\<close>; in
  both cases \<^verbatim>\<open>os.mkdir\<close> has failed before anything was created.
\<close>

fun mkdir_parents :: "path \<Rightarrow> dir \<Rightarrow> error + dir" where
  "mkdir_parents [] fs = Inr fs"
| "mkdir_parents (n # p) fs =
     (case map_of fs n of
        Some (File c) \<Rightarrow> Inl (if p = [] then FileExistsError else NotADirectoryError)
      | Some (Dir ch) \<Rightarrow>
          (case mkdir_parents p ch of
             Inl e \<Rightarrow> Inl e
           | Inr ch' \<Rightarrow> Inr (AList.update n (Dir ch') fs))
      | None \<Rightarrow>
          (case mkdir_parents p [] of
             Inl e \<Rightarrow> Inl e
           | Inr ch' \<Rightarrow> Inr (AList.update n (Dir ch') fs)))"

text \<open>
  \<^verbatim>\<open>shutil.copy2(src, dst)\<close> for a regular file named \<open>n\<close> with bytes \<open>c\<close>, where
  \<open>d\<close> lists the directory that holds \<^verbatim>\<open>dst\<close>:
  \<^verbatim>\<open>
  if os.path.isdir(dst):
      dst = os.path.join(dst, os.path.basename(src))
  copyfile(src, dst)
  \<close>
  so a directory at \<^verbatim>\<open>dst\<close> receives the file under its own name, and
  \<^verbatim>\<open>copyfile\<close> fails (\<^verbatim>\<open>IsADirectoryError\<close>, result \<open>None\<close>) when that name is a
  directory again. Otherwise the file is created or overwritten.
\<close>

fun copy2 :: "name \<Rightarrow> string \<Rightarrow> dir \<Rightarrow> dir option" where
  "copy2 n c d =
     (case map_of d n of
        Some (Dir ch) \<Rightarrow>
          (case map_of ch n of
             Some (Dir _) \<Rightarrow> None
           | _ \<Rightarrow> Some (AList.update n (Dir (AList.update n (File c) ch)) d))
      | _ \<Rightarrow> Some (AList.update n (File c) d))"

text \<open>
  The loop of \<^verbatim>\<open>shutil._copytree\<close> with \<^verbatim>\<open>dirs_exist_ok=True\<close>, over the entries of
  the source directory, into the entries \<open>d\<close> of an existing destination directory.
  A regular file goes through \<open>copy2\<close>. A directory recurses into \<^verbatim>\<open>copytree\<close>,
  whose \<^verbatim>\<open>os.makedirs(dst, exist_ok=True)\<close> keeps an existing directory, creates a
  missing one and raises on a regular file. The \<^verbatim>\<open>OSError\<close> of an entry is caught
  and recorded, and the loop goes on with the next entry; at the end
  \<^verbatim>\<open>shutil.Error\<close> is raised when anything was recorded. The result is that flag and
  the entries of the destination.
\<close>

function copy_entries :: "dir \<Rightarrow> dir \<Rightarrow> bool \<times> dir" where
  "copy_entries [] d = (False, d)"
| "copy_entries ((n, File c) # es) d =
     (case copy2 n c d of
        None \<Rightarrow> (True, snd (copy_entries es d))
      | Some d1 \<Rightarrow> copy_entries es d1)"
| "copy_entries ((n, Dir sc) # es) d =
     (case map_of d n of
        Some (File x) \<Rightarrow> (True, snd (copy_entries es d))
      | Some (Dir ch) \<Rightarrow>
          (case copy_entries sc ch of
             (e1, ch') \<Rightarrow>
               (case copy_entries es (AList.update n (Dir ch') d) of
                  (e2, d') \<Rightarrow> (e1 \<or> e2, d')))
      | None \<Rightarrow>
          (case copy_entries sc [] of
             (e1, ch') \<Rightarrow>
               (case copy_entries es (AList.update n (Dir ch') d) of
                  (e2, d') \<Rightarrow> (e1 \<or> e2, d'))))"
  by pat_completeness auto
termination
  by (relation "measure (\<lambda>(s, d). size_list (size_prod (\<lambda>_. 0) size) s)") auto

text \<open>
  \<^verbatim>\<open>shutil.copytree(src, dst, dirs_exist_ok=True)\<close>: \<^verbatim>\<open>os.scandir(src)\<close> lists the
  source (and raises when it is not a directory), \<^verbatim>\<open>os.makedirs\<close> ensures the
  destination, and the loop above fills it.
\<close>

definition copytree :: "path \<Rightarrow> path \<Rightarrow> dir \<Rightarrow> error option \<times> dir" where
  "copytree src dst fs =
     (case lookup fs src of
        None \<Rightarrow> (Some FileNotFoundError, fs)
      | Some (File c) \<Rightarrow> (Some NotADirectoryError, fs)
      | Some (Dir sc) \<Rightarrow>
          (case mkdir_parents dst fs of
             Inl e \<Rightarrow> (Some e, fs)
           | Inr fs1 \<Rightarrow>
               (case copy_entries sc (subdir fs1 dst) of
                  (err, c) \<Rightarrow> (if err then Some ShutilError else None, put dst c fs1))))"

text \<open>
  \<^verbatim>\<open>Repository(local_dir=..., clone_from=..., use_auth_token=True)\<close> of
  \<^verbatim>\<open>huggingface_hub\<close>, which is not part of the repository: it makes sure
  \<^verbatim>\<open>local_dir\<close> exists and clones into it. What cloning does there is the parameter
  \<open>clone\<close>: from the entries found in \<^verbatim>\<open>local_dir\<close> to whether it succeeded and the
  entries it left. \<open>clone []\<close> is a clone into an empty directory.
\<close>

definition Repository :: "path \<Rightarrow> (dir \<Rightarrow> bool \<times> dir) \<Rightarrow> dir \<Rightarrow> error option \<times> dir" where
  "Repository local_dir clone fs =
     (case mkdir_parents local_dir fs of
        Inl e \<Rightarrow> (Some e, fs)
      | Inr fs1 \<Rightarrow>
          (case clone (subdir fs1 local_dir) of
             (ok, c) \<Rightarrow> (if ok then None else Some CloneError, put local_dir c fs1)))"

section \<open>The script\<close>

text \<open>
  The mapping \<^verbatim>\<open>tasks\<close> of lines 21 to 38: a dictionary literal, iterated with
  \<^verbatim>\<open>tasks.items()\<close> in insertion order, hence an association list.
\<close>

definition tasks :: "pure_path \<Rightarrow> (name \<times> (pure_path \<times> name) list) list" where
  "tasks pr =
     [(''data_vocab'',
         [(joinpath (joinpath pr ''Evaluation'') ''try1'', ''data''),
          (joinpath (joinpath pr ''ML'') ''try1'', ''data'')]),
      (''models_vocab'',
         [(joinpath (joinpath pr ''Evaluation'') ''try1'', ''models''),
          (joinpath (joinpath pr ''ML'') ''try1'', ''models'')]),
      (''data _enronsent'',
         [(joinpath (joinpath pr ''ML'') ''try2'', ''data''),
          (joinpath (joinpath pr ''Evaluation'') ''try2'', ''data'')]),
      (''models_enronsent'',
         [(joinpath (joinpath pr ''ML'') ''try2'', ''models''),
          (joinpath (joinpath pr ''Evaluation'') ''try2'', ''models'')])]"

text \<open>Lines 11 to 17: remove a stale clone, then clone.\<close>

definition fetch :: "pure_path \<Rightarrow> (dir \<Rightarrow> bool \<times> dir) \<Rightarrow> dir \<Rightarrow> error option \<times> dir" where
  "fetch file clone fs =
     (let tmp = below (project_root file) (tmp_repo file) in
      case (if exists fs tmp then rmtree tmp fs else Inr fs) of
        Inl e \<Rightarrow> (Some e, fs)
      | Inr fs1 \<Rightarrow> Repository tmp clone fs1)"

text \<open>Lines 45 to 48: the inner loop over the destinations of one remote folder.\<close>

fun copy_dests :: "pure_path \<Rightarrow> pure_path \<Rightarrow> (pure_path \<times> name) list \<Rightarrow> dir \<Rightarrow> error option \<times> dir" where
  "copy_dests pr src [] fs = (None, fs)"
| "copy_dests pr src ((base_dir, sub) # ds) fs =
     (case mkdir_parents (below pr (joinpath base_dir sub)) fs of
        Inl e \<Rightarrow> (Some e, fs)
      | Inr fs1 \<Rightarrow>
          (case copytree (below pr src) (below pr (joinpath base_dir sub)) fs1 of
             (Some e, fs2) \<Rightarrow> (Some e, fs2)
           | (None, fs2) \<Rightarrow> copy_dests pr src ds fs2))"

text \<open>Lines 41 to 48: the loop over \<^verbatim>\<open>tasks.items()\<close>.\<close>

fun copy_tasks :: "pure_path \<Rightarrow> pure_path \<Rightarrow> (name \<times> (pure_path \<times> name) list) list \<Rightarrow> dir \<Rightarrow> error option \<times> dir" where
  "copy_tasks pr tmp [] fs = (None, fs)"
| "copy_tasks pr tmp ((remote_folder, destinations) # ts) fs =
     (if \<not> is_dir fs (below pr (joinpath tmp remote_folder))
      then (Some FileNotFoundError, fs)
      else (case copy_dests pr (joinpath tmp remote_folder) destinations fs of
              (Some e, fs1) \<Rightarrow> (Some e, fs1)
            | (None, fs1) \<Rightarrow> copy_tasks pr tmp ts fs1))"

text \<open>
  The whole script: the error it ends with, if any, and the file system it leaves.
\<close>

definition run :: "pure_path \<Rightarrow> (dir \<Rightarrow> bool \<times> dir) \<Rightarrow> dir \<Rightarrow> error option \<times> dir" where
  "run file clone fs =
     (case fetch file clone fs of
        (Some e, fs1) \<Rightarrow> (Some e, fs1)
      | (None, fs1) \<Rightarrow>
          copy_tasks (project_root file) (tmp_repo file) (tasks (project_root file)) fs1)"

text \<open>The clone directory and the destinations, as lists of names below the project root.\<close>

definition tmp_dir :: "pure_path \<Rightarrow> path" where
  "tmp_dir file = below (project_root file) (tmp_repo file)"

definition dest_paths :: "pure_path \<Rightarrow> (pure_path \<times> name) list \<Rightarrow> path list" where
  "dest_paths pr ds = map (\<lambda>(base_dir, sub). below pr (joinpath base_dir sub)) ds"

definition all_dests :: "pure_path \<Rightarrow> (name \<times> (pure_path \<times> name) list) list \<Rightarrow> path list" where
  "all_dests pr ts = concat (map (\<lambda>(remote_folder, ds). dest_paths pr ds) ts)"

text \<open>Paths that diverge pairwise: no write below one of them reaches another.\<close>

fun apart :: "path list \<Rightarrow> bool" where
  "apart [] = True"
| "apart (p # ps) = ((\<forall>q\<in>set ps. diverge p q) \<and> apart ps)"

text \<open>
  A directory as \<^verbatim>\<open>os.scandir\<close> can list it: no name occurs twice, in the directory
  or in any directory below it.
\<close>

function distinct_names :: "dir \<Rightarrow> bool" where
  "distinct_names [] = True"
| "distinct_names ((n, File c) # es) = (n \<notin> fst ` set es \<and> distinct_names es)"
| "distinct_names ((n, Dir sc) # es) = (n \<notin> fst ` set es \<and> distinct_names sc \<and> distinct_names es)"
  by pat_completeness auto
termination
  by (relation "measure (size_list (size_prod (\<lambda>_. 0) size))") auto

text \<open>
  The destination \<open>d\<close> holds in \<open>fs'\<close> what the copy loop makes of the source
  entries \<open>sc\<close> and of the entries the destination had in \<open>fs\<close>.
\<close>

definition copied :: "dir \<Rightarrow> dir \<Rightarrow> dir \<Rightarrow> path \<Rightarrow> bool" where
  "copied sc fs fs' d = (lookup fs' d = Some (Dir (snd (copy_entries sc (subdir fs d)))))"

text \<open>
  One round of the loop of \<open>copy_entries\<close>: what a single source entry does to the
  destination, and whether it recorded an error. The loop is the composition of these
  rounds (lemma \<open>copy_entries_Cons\<close> below).
\<close>

fun entry_step :: "name \<times> node \<Rightarrow> dir \<Rightarrow> bool \<times> dir" where
  "entry_step (n, File c) d =
     (case copy2 n c d of None \<Rightarrow> (True, d) | Some d1 \<Rightarrow> (False, d1))"
| "entry_step (n, Dir sc) d =
     (case map_of d n of
        Some (File x) \<Rightarrow> (True, d)
      | Some (Dir ch) \<Rightarrow>
          (fst (copy_entries sc ch), AList.update n (Dir (snd (copy_entries sc ch))) d)
      | None \<Rightarrow>
          (fst (copy_entries sc []), AList.update n (Dir (snd (copy_entries sc []))) d))"

declare copy2.simps [simp del]

text \<open>The error of \<open>mkdir_parents\<close> at a path, if it raises one.\<close>

definition mkdir_error_of :: "dir \<Rightarrow> path \<Rightarrow> error option" where
  "mkdir_error_of fs p = (case mkdir_parents p fs of Inl e \<Rightarrow> Some e | Inr _ \<Rightarrow> None)"

section \<open>Example inputs\<close>

text \<open>
  A script location, a remote whose clone always succeeds and holds the four folders
  (one of them with a file), and three file systems: one with a directory where the
  source has a file, one with an unrelated file in a destination, and one where the
  clone path is a regular file.
\<close>

definition example_file :: pure_path where
  "example_file = \<lparr>root = True, parts = [''repo'', ''setup.py'']\<rparr>"

definition example_clone :: "dir \<Rightarrow> bool \<times> dir" where
  "example_clone old =
     (True, [(''data_vocab'', Dir [(''f.txt'', File ''a'')]),
             (''models_vocab'', Dir []),
             (''data _enronsent'', Dir []),
             (''models_enronsent'', Dir [])])"

definition example_fs :: dir where
  "example_fs =
     [(''Evaluation'', Dir [(''try1'', Dir [(''data'',
         Dir [(''f.txt'', Dir [(''f.txt'', File ''old'')])])])])]"

definition example_kept :: dir where
  "example_kept =
     [(''Evaluation'', Dir [(''try1'', Dir [(''data'',
         Dir [(''keep.txt'', File ''k''), (''f.txt'', File ''old'')])])])]"

definition example_stale :: dir where
  "example_stale = [(''tmp_hf_repo'', File ''x'')]"

section \<open>Path arithmetic\<close>

lemma below_join1 [simp]: "below pr (joinpath pr a) = [a]"
  by (simp add: below_def joinpath_def)

lemma below_join2 [simp]: "below pr (joinpath (joinpath pr a) b) = [a, b]"
  by (simp add: below_def joinpath_def)

lemma below_join3 [simp]: "below pr (joinpath (joinpath (joinpath pr a) b) c) = [a, b, c]"
  by (simp add: below_def joinpath_def)

lemma tmp_dir_eq: "tmp_dir file = [''tmp_hf_repo'']"
  by (simp add: tmp_dir_def tmp_repo_def)

lemma map_of_delete_same [simp]: "map_of (AList.delete n fs) n = None"
  by (simp add: delete_conv')

section \<open>Lookups and diverging paths\<close>

lemma diverge_sym: "diverge p q = diverge q p"
  by (induction p q rule: diverge.induct) auto

lemma diverge_append: "diverge p q \<Longrightarrow> diverge p (q @ r)"
  by (induction p q rule: diverge.induct) auto

lemma diverge_append_left: "diverge p q \<Longrightarrow> diverge (p @ r) q"
  by (induction p q rule: diverge.induct) auto

lemma diverge_irrefl: "\<not> diverge p p"
  by (induction p) auto

lemma lookup_Nil_path: "lookup [] p = (if p = [] then Some (Dir []) else None)"
  by (cases p) auto

lemma lookup_append:
  "lookup fs (p @ q) =
     (case lookup fs p of
        None \<Rightarrow> None
      | Some (File c) \<Rightarrow> (if q = [] then Some (File c) else None)
      | Some (Dir ch) \<Rightarrow> lookup ch q)"
  by (induction fs p rule: lookup.induct) (auto split: option.splits node.splits)

lemma lookup_below: "q \<noteq> [] \<Longrightarrow> lookup fs (p @ q) = lookup (subdir fs p) q"
  by (simp add: lookup_append subdir_def lookup_Nil_path split: option.splits node.splits)

lemma lookup_update_same: "lookup (AList.update n x fs) (n # p) =
    (case x of File c \<Rightarrow> (if p = [] then Some (File c) else None) | Dir ch \<Rightarrow> lookup ch p)"
  by (simp add: update_conv')

lemma lookup_update_other: "a \<noteq> n \<Longrightarrow> lookup (AList.update n x fs) (a # p) = lookup fs (a # p)"
  by (simp add: update_conv')

section \<open>Creating directories and writing below a path\<close>

lemma mkdir_fresh: "\<exists>c. mkdir_parents p [] = Inr c"
  by (induction p) auto

lemma mkdir_frame:
  "mkdir_parents p fs = Inr fs1 \<Longrightarrow> diverge p q \<Longrightarrow> lookup fs1 q = lookup fs q"
proof (induction p fs arbitrary: fs1 q rule: mkdir_parents.induct)
  case (1 fs)
  then show ?case by simp
next
  case (2 n p fs)
  from "2.prems"(2) obtain a q' where q: "q = a # q'" by (cases q) auto
  show ?case
  proof (cases "a = n")
    case False
    with "2.prems" q show ?thesis
      by (auto simp: update_conv' split: option.splits node.splits sum.splits)
  next
    case True
    with "2.prems" q have d: "diverge p q'" by simp
    show ?thesis
    proof (cases "map_of fs n")
      case None
      with "2.prems"(1) obtain ch' where c: "mkdir_parents p [] = Inr ch'" and f: "fs1 = AList.update n (Dir ch') fs"
        by (auto split: sum.splits)
      from "2.IH"(1)[OF None c d] have "lookup ch' q' = lookup [] q'" .
      moreover from d have "q' \<noteq> []" by (cases p) auto
      ultimately show ?thesis using None f q True by (simp add: update_conv' lookup_Nil_path)
    next
      case (Some x)
      show ?thesis
      proof (cases x)
        case (File c)
        with Some "2.prems"(1) show ?thesis by simp
      next
        case (Dir ch)
        with Some "2.prems"(1) obtain ch' where c: "mkdir_parents p ch = Inr ch'" and f: "fs1 = AList.update n (Dir ch') fs"
          by (auto split: sum.splits)
        from "2.IH"(2)[OF Some Dir c d] show ?thesis using Some Dir f q True by (simp add: update_conv')
      qed
    qed
  qed
qed

lemma mkdir_at: "mkdir_parents p fs = Inr fs1 \<Longrightarrow> lookup fs1 p = Some (Dir (subdir fs p))"
proof (induction p fs arbitrary: fs1 rule: mkdir_parents.induct)
  case (1 fs)
  then show ?case by (simp add: subdir_def)
next
  case (2 n p fs)
  show ?case
  proof (cases "map_of fs n")
    case None
    with "2.prems"(1) obtain ch' where c: "mkdir_parents p [] = Inr ch'" and f: "fs1 = AList.update n (Dir ch') fs"
      by (auto split: sum.splits)
    from "2.IH"(1)[OF None c] show ?thesis using None f
      by (simp add: update_conv' subdir_def lookup_Nil_path)
  next
    case (Some x)
    show ?thesis
    proof (cases x)
      case (File c)
      with Some "2.prems"(1) show ?thesis by simp
    next
      case (Dir ch)
      with Some "2.prems"(1) obtain ch' where c: "mkdir_parents p ch = Inr ch'" and f: "fs1 = AList.update n (Dir ch') fs"
        by (auto split: sum.splits)
      from "2.IH"(2)[OF Some Dir c] show ?thesis using Some Dir f by (simp add: update_conv' subdir_def)
    qed
  qed
qed

lemma mkdir_existing: "is_dir fs p \<Longrightarrow> mkdir_parents p fs = Inr fs"
proof (induction p fs rule: mkdir_parents.induct)
  case (1 fs)
  then show ?case by simp
next
  case (2 n p fs)
  from "2.prems" obtain ch where m: "map_of fs n = Some (Dir ch)" and d: "is_dir ch p"
    by (auto simp: is_dir_def split: option.splits node.splits if_splits)
  from "2.IH"(2)[OF m refl d] m show ?case by (simp add: update_triv)
qed

lemma put_frame: "diverge p q \<Longrightarrow> lookup (put p c fs) q = lookup fs q"
proof (induction p c fs arbitrary: q rule: put.induct)
  case (1 c fs)
  then show ?case by simp
next
  case (2 n p c fs)
  from "2.prems" obtain a q' where q: "q = a # q'" by (cases q) auto
  show ?case
  proof (cases "map_of fs n")
    case None
    then show ?thesis by simp
  next
    case (Some x)
    show ?thesis
    proof (cases x)
      case (File c)
      with Some show ?thesis by simp
    next
      case (Dir ch)
      show ?thesis
      proof (cases "a = n")
        case True
        with "2.prems" q have "diverge p q'" by simp
        from "2.IH"[OF Some Dir this] show ?thesis using Some Dir q True by (simp add: update_conv')
      next
        case False
        then show ?thesis using Some Dir q by (simp add: update_conv')
      qed
    qed
  qed
qed

lemma put_at: "is_dir fs p \<Longrightarrow> lookup (put p c fs) p = Some (Dir c)"
proof (induction p c fs rule: put.induct)
  case (1 c fs)
  then show ?case by simp
next
  case (2 n p c fs)
  from "2.prems" obtain ch where m: "map_of fs n = Some (Dir ch)" and d: "is_dir ch p"
    by (auto simp: is_dir_def split: option.splits node.splits if_splits)
  from "2.IH"[OF m refl d] m show ?case by (simp add: update_conv')
qed

section \<open>One destination\<close>

lemma copytree_frame:
  "copytree src dst fs = (e, fs') \<Longrightarrow> diverge dst q \<Longrightarrow> lookup fs' q = lookup fs q"
  by (auto simp: copytree_def put_frame mkdir_frame split: option.splits node.splits sum.splits prod.splits)

lemma copytree_at:
  assumes "lookup fs src = Some (Dir sc)" and "is_dir fs dst"
  shows "fst (copytree src dst fs) = (if fst (copy_entries sc (subdir fs dst)) then Some ShutilError else None)
       \<and> lookup (snd (copytree src dst fs)) dst = Some (Dir (snd (copy_entries sc (subdir fs dst))))"
  using assms by (simp add: copytree_def mkdir_existing put_at split: prod.splits)

lemma mkdir_error:
  "mkdir_parents p fs = Inl e \<Longrightarrow> e = FileExistsError \<or> e = NotADirectoryError"
  by (induction p fs rule: mkdir_parents.induct)
     (auto split: option.splits node.splits sum.splits if_splits)

lemma subdir_cong: "lookup fs1 p = lookup fs p \<Longrightarrow> subdir fs1 p = subdir fs p"
  by (simp add: subdir_def)

lemma is_dir_cong: "lookup fs1 p = lookup fs p \<Longrightarrow> is_dir fs1 p = is_dir fs p"
  by (simp add: is_dir_def)

lemma is_dir_lookup: "lookup fs p = Some (Dir c) \<Longrightarrow> is_dir fs p"
  by (simp add: is_dir_def)

text \<open>One destination: \<^verbatim>\<open>dest.mkdir(...)\<close> followed by \<^verbatim>\<open>shutil.copytree(src, dest, ...)\<close>.\<close>

lemma dest_step:
  assumes src: "lookup fs sp = Some (Dir sc)"
    and dv: "diverge d sp"
    and mk: "mkdir_parents d fs = Inr fs1"
    and ct: "copytree sp d fs1 = (e, fs2)"
  shows "e = (if fst (copy_entries sc (subdir fs d)) then Some ShutilError else None)"
    and "lookup fs2 d = Some (Dir (snd (copy_entries sc (subdir fs d))))"
    and "\<And>q. diverge d q \<Longrightarrow> lookup fs2 q = lookup fs q"
proof -
  have s1: "lookup fs1 sp = Some (Dir sc)"
    using mkdir_frame[OF mk dv] src by simp
  have d1: "lookup fs1 d = Some (Dir (subdir fs d))"
    by (rule mkdir_at[OF mk])
  hence sd: "subdir fs1 d = subdir fs d" and dd: "is_dir fs1 d"
    by (simp_all add: subdir_def is_dir_def)
  from copytree_at[OF s1 dd] ct sd
  show "e = (if fst (copy_entries sc (subdir fs d)) then Some ShutilError else None)"
    and "lookup fs2 d = Some (Dir (snd (copy_entries sc (subdir fs d))))"
    by simp_all
  show "\<And>q. diverge d q \<Longrightarrow> lookup fs2 q = lookup fs q"
    using copytree_frame[OF ct] mkdir_frame[OF mk] by simp
qed

section \<open>The two loops\<close>

text \<open>
  What the inner loop does, for destinations that diverge pairwise and from the source:
  paths that diverge from every destination keep what they hold; a destination is as
  before or holds the copy; after a run without error each holds the copy and no copy
  recorded an error.
\<close>

lemma copy_dests_spec:
  "lookup fs (below pr src) = Some (Dir sc) \<Longrightarrow>
   \<forall>d\<in>set (dest_paths pr ds). diverge d (below pr src) \<Longrightarrow>
   apart (dest_paths pr ds) \<Longrightarrow>
   copy_dests pr src ds fs = (e, fs') \<Longrightarrow>
     (\<forall>q. (\<forall>d\<in>set (dest_paths pr ds). diverge d q) \<longrightarrow> lookup fs' q = lookup fs q)
   \<and> (\<forall>d\<in>set (dest_paths pr ds). lookup fs' d = lookup fs d \<or> copied sc fs fs' d)
   \<and> (e = None \<longrightarrow> (\<forall>d\<in>set (dest_paths pr ds).
          copied sc fs fs' d \<and> \<not> fst (copy_entries sc (subdir fs d))))
   \<and> e \<noteq> Some FileNotFoundError \<and> e \<noteq> Some CloneError"
proof (induction ds arbitrary: fs)
  case Nil
  then show ?case by (simp add: dest_paths_def)
next
  case (Cons bs ds)
  obtain b s where bs: "bs = (b, s)" by (cases bs)
  define d0 where "d0 = below pr (joinpath b s)"
  have dps: "dest_paths pr (bs # ds) = d0 # dest_paths pr ds"
    by (simp add: dest_paths_def bs d0_def)
  from Cons.prems(2) dps have dv0: "diverge d0 (below pr src)"
    and dvs: "\<forall>d\<in>set (dest_paths pr ds). diverge d (below pr src)" by simp_all
  from Cons.prems(3) dps have ap0: "\<forall>d\<in>set (dest_paths pr ds). diverge d0 d"
    and aps: "apart (dest_paths pr ds)" by simp_all
  show ?case
  proof (cases "mkdir_parents d0 fs")
    case (Inl err)
    with Cons.prems(4) bs d0_def have "e = Some err" "fs' = fs" by simp_all
    with mkdir_error[OF Inl] show ?thesis by auto
  next
    case (Inr fs1)
    obtain e1 fs2 where ct: "copytree (below pr src) d0 fs1 = (e1, fs2)"
      by (cases "copytree (below pr src) d0 fs1")
    note st = dest_step[OF Cons.prems(1) dv0 Inr ct]
    have c0: "copied sc fs fs2 d0" using st(2) by (simp add: copied_def)
    have same: "\<forall>d\<in>set (dest_paths pr ds). lookup fs2 d = lookup fs d"
      using st(3) ap0 by blast
    show ?thesis
    proof (cases e1)
      case (Some err)
      with Cons.prems(4) bs d0_def Inr ct have r: "e = Some err" "fs' = fs2" by simp_all
      from st(1) Some have "err = ShutilError" by (simp split: if_splits)
      with r c0 same st(3) dps show ?thesis by auto
    next
      case None
      with Cons.prems(4) bs d0_def Inr ct have r: "copy_dests pr src ds fs2 = (e, fs')" by simp
      have s2: "lookup fs2 (below pr src) = Some (Dir sc)"
        using st(3)[OF dv0] Cons.prems(1) by simp
      note ih = Cons.IH[OF s2 dvs aps r]
      have rev_ap: "\<forall>d\<in>set (dest_paths pr ds). diverge d d0"
        using ap0 by (simp add: diverge_sym)
      with ih have keep0: "lookup fs' d0 = lookup fs2 d0" by blast
      have F: "\<forall>q. (\<forall>d\<in>set (dest_paths pr (bs # ds)). diverge d q) \<longrightarrow> lookup fs' q = lookup fs q"
        using ih st(3) dps by simp
      have cp: "\<forall>d\<in>set (dest_paths pr ds). copied sc fs2 fs' d = copied sc fs fs' d"
        using same by (simp add: copied_def subdir_def)
      have sb: "\<forall>d\<in>set (dest_paths pr ds). subdir fs2 d = subdir fs d"
        using same by (simp add: subdir_def)
      have c0': "copied sc fs fs' d0" using c0 keep0 by (simp add: copied_def)
      have D: "\<forall>d\<in>set (dest_paths pr (bs # ds)). lookup fs' d = lookup fs d \<or> copied sc fs fs' d"
        using ih cp same c0' dps by auto
      have S: "e = None \<longrightarrow> (\<forall>d\<in>set (dest_paths pr (bs # ds)).
          copied sc fs fs' d \<and> \<not> fst (copy_entries sc (subdir fs d)))"
        using ih cp sb c0' dps st(1) None by (auto split: if_splits)
      from F D S ih show ?thesis by blast
    qed
  qed
qed

lemma apart_append:
  "apart (xs @ ys) = (apart xs \<and> apart ys \<and> (\<forall>x\<in>set xs. \<forall>y\<in>set ys. diverge x y))"
  by (induction xs) auto

lemma all_dests_Cons: "all_dests pr ((k, ds) # ts) = dest_paths pr ds @ all_dests pr ts"
  by (simp add: all_dests_def)

lemma all_dests_append: "all_dests pr (xs @ ys) = all_dests pr xs @ all_dests pr ys"
  by (simp add: all_dests_def)

lemma all_dests_mem: "(k, ds) \<in> set ts \<Longrightarrow> d \<in> set (dest_paths pr ds) \<Longrightarrow> d \<in> set (all_dests pr ts)"
  by (auto simp: all_dests_def)

lemma all_dests_memD: "d \<in> set (all_dests pr ts) \<Longrightarrow> \<exists>k ds. (k, ds) \<in> set ts \<and> d \<in> set (dest_paths pr ds)"
  by (auto simp: all_dests_def)

lemma subdir_is_dir: "is_dir fs p \<Longrightarrow> lookup fs p = Some (Dir (subdir fs p))"
  by (auto simp: is_dir_def subdir_def split: option.splits node.splits)

text \<open>
  The same for the loop over the table, where the source of an entry is the folder of
  its key below the clone directory \<open>t\<close>; and where the loop stops on
  \<open>FileNotFoundError\<close>.
\<close>

lemma copy_tasks_spec:
  "\<forall>d\<in>set (all_dests pr ts). diverge d [t] \<Longrightarrow>
   apart (all_dests pr ts) \<Longrightarrow>
   copy_tasks pr (joinpath pr t) ts fs = (e, fs') \<Longrightarrow>
     (\<forall>q. (\<forall>d\<in>set (all_dests pr ts). diverge d q) \<longrightarrow> lookup fs' q = lookup fs q)
   \<and> (\<forall>(k, ds)\<in>set ts. \<forall>d\<in>set (dest_paths pr ds).
          lookup fs' d = lookup fs d \<or> (is_dir fs [t, k] \<and> copied (subdir fs [t, k]) fs fs' d))
   \<and> (e = None \<longrightarrow> (\<forall>(k, ds)\<in>set ts. is_dir fs [t, k] \<and> (\<forall>d\<in>set (dest_paths pr ds).
          copied (subdir fs [t, k]) fs fs' d
          \<and> \<not> fst (copy_entries (subdir fs [t, k]) (subdir fs d)))))
   \<and> (e = Some FileNotFoundError \<longrightarrow>
          dropWhile (\<lambda>(k, ds). is_dir fs [t, k]) ts \<noteq> []
        \<and> (\<forall>(k, ds)\<in>set (takeWhile (\<lambda>(k, ds). is_dir fs [t, k]) ts).
              \<forall>d\<in>set (dest_paths pr ds). copied (subdir fs [t, k]) fs fs' d)
        \<and> (\<forall>d\<in>set (all_dests pr (dropWhile (\<lambda>(k, ds). is_dir fs [t, k]) ts)).
              lookup fs' d = lookup fs d))
   \<and> e \<noteq> Some CloneError"
proof (induction ts arbitrary: fs)
  case Nil
  then show ?case by (simp add: all_dests_def)
next
  case (Cons kd ts)
  obtain k ds where kd: "kd = (k, ds)" by (cases kd)
  let ?P = "\<lambda>fs. (\<lambda>(k, ds). is_dir fs [t, k])"
  have ad: "all_dests pr (kd # ts) = dest_paths pr ds @ all_dests pr ts"
    by (simp add: kd all_dests_Cons)
  from Cons.prems(1) ad have dv0: "\<forall>d\<in>set (dest_paths pr ds). diverge d [t]"
    and dvs: "\<forall>d\<in>set (all_dests pr ts). diverge d [t]" by simp_all
  from Cons.prems(2) ad have ap0: "apart (dest_paths pr ds)" and aps: "apart (all_dests pr ts)"
    and cross: "\<forall>x\<in>set (dest_paths pr ds). \<forall>y\<in>set (all_dests pr ts). diverge x y"
    by (simp_all add: apart_append)
  show ?case
  proof (cases "is_dir fs [t, k]")
    case False
    with Cons.prems(3) kd have "e = Some FileNotFoundError" "fs' = fs" by simp_all
    with False kd show ?thesis by simp
  next
    case True
    define sc where "sc = subdir fs [t, k]"
    have src: "lookup fs (below pr (joinpath (joinpath pr t) k)) = Some (Dir sc)"
      using subdir_is_dir[OF True] by (simp add: sc_def)
    have dvk: "\<forall>d\<in>set (dest_paths pr ds). diverge d (below pr (joinpath (joinpath pr t) k))"
      using dv0 diverge_append[of _ "[t]" "[k]"] by simp
    obtain e1 fs1 where cd: "copy_dests pr (joinpath (joinpath pr t) k) ds fs = (e1, fs1)"
      by (cases "copy_dests pr (joinpath (joinpath pr t) k) ds fs")
    from copy_dests_spec[OF src dvk ap0 cd]
    have F1: "\<And>q. (\<forall>d\<in>set (dest_paths pr ds). diverge d q) \<Longrightarrow> lookup fs1 q = lookup fs q"
      and D1: "\<forall>d\<in>set (dest_paths pr ds). lookup fs1 d = lookup fs d \<or> copied sc fs fs1 d"
      and S1: "e1 = None \<longrightarrow> (\<forall>d\<in>set (dest_paths pr ds).
                 copied sc fs fs1 d \<and> \<not> fst (copy_entries sc (subdir fs d)))"
      and E1: "e1 \<noteq> Some FileNotFoundError" "e1 \<noteq> Some CloneError"
      by blast+
    have rest_same: "\<forall>d\<in>set (all_dests pr ts). lookup fs1 d = lookup fs d"
      using F1 cross by blast
    have keys_same: "\<And>k'. lookup fs1 [t, k'] = lookup fs [t, k']"
      using F1 dv0 diverge_append[of _ "[t]"] by fastforce
    show ?thesis
    proof (cases e1)
      case (Some err)
      with Cons.prems(3) kd True cd have r: "e = Some err" "fs' = fs1" by simp_all
      have "\<forall>(k', ds')\<in>set ts. \<forall>d\<in>set (dest_paths pr ds'). lookup fs1 d = lookup fs d"
        using rest_same all_dests_mem by fastforce
      with r E1 Some F1 D1 True ad kd show ?thesis by (auto simp: sc_def)
    next
      case None
      with Cons.prems(3) kd True cd have r: "copy_tasks pr (joinpath pr t) ts fs1 = (e, fs')" by simp
      note ih = Cons.IH[OF dvs aps r]
      from ih have F2: "\<And>q. (\<forall>d\<in>set (all_dests pr ts). diverge d q) \<Longrightarrow> lookup fs' q = lookup fs1 q"
        by blast
      have head_kept: "\<forall>d\<in>set (dest_paths pr ds). lookup fs' d = lookup fs1 d"
        using F2 cross by (metis diverge_sym)
      have head_copied: "\<forall>d\<in>set (dest_paths pr ds).
          copied sc fs fs' d \<and> \<not> fst (copy_entries sc (subdir fs d))"
        using S1 None head_kept by (simp add: copied_def)
      have sub_keys: "\<And>k'. subdir fs1 [t, k'] = subdir fs [t, k']"
        and dir_keys: "\<And>k'. is_dir fs1 [t, k'] = is_dir fs [t, k']"
        using keys_same by (simp_all add: subdir_def is_dir_def)
      have cp: "\<And>x d. d \<in> set (all_dests pr ts) \<Longrightarrow> copied x fs1 fs' d = copied x fs fs' d"
        and sb: "\<And>d. d \<in> set (all_dests pr ts) \<Longrightarrow> subdir fs1 d = subdir fs d"
        using rest_same by (simp_all add: copied_def subdir_def)
      have F: "\<forall>q. (\<forall>d\<in>set (all_dests pr (kd # ts)). diverge d q) \<longrightarrow> lookup fs' q = lookup fs q"
        using F1 F2 ad by simp
      have D: "\<forall>(k, ds)\<in>set (kd # ts). \<forall>d\<in>set (dest_paths pr ds).
          lookup fs' d = lookup fs d \<or> (is_dir fs [t, k] \<and> copied (subdir fs [t, k]) fs fs' d)"
      proof -
        have "\<forall>(k, ds)\<in>set ts. \<forall>d\<in>set (dest_paths pr ds).
          lookup fs' d = lookup fs d \<or> (is_dir fs [t, k] \<and> copied (subdir fs [t, k]) fs fs' d)"
        proof (clarify)
          fix k' ds' d
          assume m: "(k', ds') \<in> set ts" and d: "d \<in> set (dest_paths pr ds')"
            and n: "\<not> (is_dir fs [t, k'] \<and> copied (subdir fs [t, k']) fs fs' d)"
          from all_dests_mem[OF m d] have a: "d \<in> set (all_dests pr ts)" .
          from ih m d have "lookup fs' d = lookup fs1 d
              \<or> (is_dir fs1 [t, k'] \<and> copied (subdir fs1 [t, k']) fs1 fs' d)" by blast
          with n cp[OF a] sub_keys dir_keys rest_same a show "lookup fs' d = lookup fs d" by auto
        qed
        with head_copied True kd show ?thesis by (simp add: sc_def)
      qed
      have S: "e = None \<longrightarrow> (\<forall>(k, ds)\<in>set (kd # ts). is_dir fs [t, k] \<and> (\<forall>d\<in>set (dest_paths pr ds).
          copied (subdir fs [t, k]) fs fs' d
          \<and> \<not> fst (copy_entries (subdir fs [t, k]) (subdir fs d))))"
      proof
        assume en: "e = None"
        have "\<forall>(k, ds)\<in>set ts. is_dir fs [t, k] \<and> (\<forall>d\<in>set (dest_paths pr ds).
          copied (subdir fs [t, k]) fs fs' d
          \<and> \<not> fst (copy_entries (subdir fs [t, k]) (subdir fs d)))"
        proof (clarify)
          fix k' ds'
          assume m: "(k', ds') \<in> set ts"
          from ih en m have i1: "is_dir fs1 [t, k']"
            and i2: "\<forall>d\<in>set (dest_paths pr ds'). copied (subdir fs1 [t, k']) fs1 fs' d
               \<and> \<not> fst (copy_entries (subdir fs1 [t, k']) (subdir fs1 d))" by blast+
          show "is_dir fs [t, k'] \<and> (\<forall>d\<in>set (dest_paths pr ds').
             copied (subdir fs [t, k']) fs fs' d
             \<and> \<not> fst (copy_entries (subdir fs [t, k']) (subdir fs d)))"
            using i1 i2 dir_keys sub_keys cp sb all_dests_mem[OF m] by auto
        qed
        with head_copied True kd show "\<forall>(k, ds)\<in>set (kd # ts). is_dir fs [t, k] \<and> (\<forall>d\<in>set (dest_paths pr ds).
          copied (subdir fs [t, k]) fs fs' d
          \<and> \<not> fst (copy_entries (subdir fs [t, k]) (subdir fs d)))" by (simp add: sc_def)
      qed
      have tw: "takeWhile (?P fs1) ts = takeWhile (?P fs) ts"
        and dw: "dropWhile (?P fs1) ts = dropWhile (?P fs) ts"
        using dir_keys by simp_all
      have N: "e = Some FileNotFoundError \<longrightarrow>
          dropWhile (?P fs) (kd # ts) \<noteq> []
        \<and> (\<forall>(k, ds)\<in>set (takeWhile (?P fs) (kd # ts)).
              \<forall>d\<in>set (dest_paths pr ds). copied (subdir fs [t, k]) fs fs' d)
        \<and> (\<forall>d\<in>set (all_dests pr (dropWhile (?P fs) (kd # ts))).
              lookup fs' d = lookup fs d)"
      proof
        assume en: "e = Some FileNotFoundError"
        from ih en tw dw have o1: "dropWhile (?P fs) ts \<noteq> []"
          and o2: "\<forall>(k, ds)\<in>set (takeWhile (?P fs) ts).
              \<forall>d\<in>set (dest_paths pr ds). copied (subdir fs1 [t, k]) fs1 fs' d"
          and o3: "\<forall>d\<in>set (all_dests pr (dropWhile (?P fs) ts)). lookup fs' d = lookup fs1 d"
          by simp_all
        have sub_dw: "set (all_dests pr (dropWhile (?P fs) ts)) \<subseteq> set (all_dests pr ts)"
          using set_dropWhileD[of _ "?P fs" ts] by (auto simp: all_dests_def)
        have t2: "\<forall>(k, ds)\<in>set (takeWhile (?P fs) ts).
              \<forall>d\<in>set (dest_paths pr ds). copied (subdir fs [t, k]) fs fs' d"
        proof (clarify)
          fix k' ds' d
          assume m: "(k', ds') \<in> set (takeWhile (?P fs) ts)" and d: "d \<in> set (dest_paths pr ds')"
          from m have "(k', ds') \<in> set ts" by (rule set_takeWhileD[THEN conjunct1])
          from all_dests_mem[OF this d] have a: "d \<in> set (all_dests pr ts)" .
          from o2 m d have "copied (subdir fs1 [t, k']) fs1 fs' d" by blast
          with cp[OF a] sub_keys show "copied (subdir fs [t, k']) fs fs' d" by simp
        qed
        have t3: "\<forall>d\<in>set (all_dests pr (dropWhile (?P fs) ts)). lookup fs' d = lookup fs d"
          using o3 sub_dw rest_same by auto
        from o1 t2 t3 head_copied True kd
        show "dropWhile (?P fs) (kd # ts) \<noteq> []
        \<and> (\<forall>(k, ds)\<in>set (takeWhile (?P fs) (kd # ts)).
              \<forall>d\<in>set (dest_paths pr ds). copied (subdir fs [t, k]) fs fs' d)
        \<and> (\<forall>d\<in>set (all_dests pr (dropWhile (?P fs) (kd # ts))).
              lookup fs' d = lookup fs d)" by (simp add: sc_def)
      qed
      from ih have "e \<noteq> Some CloneError" by blast
      with F D S N show ?thesis by blast
    qed
  qed
qed

section \<open>The fetcher and the table of the script\<close>

lemma fetch_frame:
  "fetch file clone fs = (e, fs1) \<Longrightarrow> a \<noteq> ''tmp_hf_repo'' \<Longrightarrow> lookup fs1 (a # q) = lookup fs (a # q)"
  by (auto simp: fetch_def tmp_repo_def exists_def Repository_def subdir_def update_conv'
      split: option.splits node.splits prod.splits if_splits)

lemma fetch_ok:
  "fetch file clone fs = (None, fs1) \<Longrightarrow>
     fst (clone []) \<and> lookup fs1 [''tmp_hf_repo''] = Some (Dir (snd (clone [])))"
  by (auto simp: fetch_def tmp_repo_def exists_def Repository_def subdir_def update_conv'
      split: option.splits node.splits prod.splits if_splits)

lemma tasks_dests:
  "all_dests pr (tasks pr) =
     [[''Evaluation'', ''try1'', ''data''], [''ML'', ''try1'', ''data''],
      [''Evaluation'', ''try1'', ''models''], [''ML'', ''try1'', ''models''],
      [''ML'', ''try2'', ''data''], [''Evaluation'', ''try2'', ''data''],
      [''ML'', ''try2'', ''models''], [''Evaluation'', ''try2'', ''models'']]"
  by (simp add: all_dests_def tasks_def dest_paths_def)

lemma tasks_apart: "apart (all_dests pr (tasks pr))"
  by (simp add: tasks_dests)

lemma tasks_off_tmp: "\<forall>d\<in>set (all_dests pr (tasks pr)). diverge d [''tmp_hf_repo'']"
  by (simp add: tasks_dests)

lemma dest_head: "d \<in> set (all_dests pr (tasks pr)) \<Longrightarrow> \<exists>a q. d = a # q \<and> a \<noteq> ''tmp_hf_repo''"
  by (auto simp add: tasks_dests)

lemma copy_tasks_append:
  "copy_tasks pr tmp (pre @ post) fs =
     (case copy_tasks pr tmp pre fs of
        (Some e, fs1) \<Rightarrow> (Some e, fs1)
      | (None, fs1) \<Rightarrow> copy_tasks pr tmp post fs1)"
  by (induction pre arbitrary: fs) (auto split: prod.splits option.splits)

lemma run_copy:
  "fetch file clone fs = (None, fs1) \<Longrightarrow>
   run file clone fs =
     copy_tasks (project_root file) (joinpath (project_root file) ''tmp_hf_repo'')
       (tasks (project_root file)) fs1"
  by (simp add: run_def tmp_repo_def)

lemma fetch_error: "fetch file clone fs = (Some e, fs1) \<Longrightarrow> e \<noteq> FileNotFoundError"
  by (auto simp: fetch_def tmp_repo_def exists_def Repository_def subdir_def update_conv'
      split: option.splits node.splits prod.splits if_splits)

lemma lookup_Cons_subdir: "subdir fs (a # p) = subdir (subdir fs [a]) p"
  by (simp add: subdir_def lookup_Nil_path split: option.splits node.splits)

lemma is_dir_Cons_subdir: "p \<noteq> [] \<Longrightarrow> is_dir fs (a # p) = is_dir (subdir fs [a]) p"
  by (cases p) (simp_all add: is_dir_def subdir_def split: option.splits node.splits)

section \<open>The copy loop, entry by entry\<close>

lemma copy_entries_Cons:
  "copy_entries (e # es) d =
     (fst (entry_step e d) \<or> fst (copy_entries es (snd (entry_step e d))),
      snd (copy_entries es (snd (entry_step e d))))"
proof (cases e)
  case (Pair n x)
  show ?thesis
  proof (cases x)
    case (File c)
    show ?thesis unfolding Pair File
      by (cases "copy2 n c d") (simp_all add: split_beta)
  next
    case (Dir sc)
    show ?thesis unfolding Pair Dir
      by (simp add: split_beta split: option.splits node.splits)
  qed
qed

lemma entry_step_other: "m \<noteq> n \<Longrightarrow> map_of (snd (entry_step (m, x) d)) n = map_of d n"
  by (cases x) (auto simp: update_conv' copy2.simps split: option.splits node.splits)

lemma copy_names_frame:
  "n \<notin> fst ` set s \<Longrightarrow> map_of (snd (copy_entries s d)) n = map_of d n"
proof (induction s arbitrary: d)
  case Nil
  then show ?case by simp
next
  case (Cons e es)
  obtain m x where e: "e = (m, x)" by (cases e)
  with Cons.prems have "m \<noteq> n" "n \<notin> fst ` set es" by auto
  with Cons.IH[of "snd (entry_step e d)"] e show ?case
    by (simp add: copy_entries_Cons entry_step_other del: entry_step.simps)
qed

lemma distinct_names_Cons:
  "distinct_names ((n, x) # es) =
     (n \<notin> fst ` set es \<and> (case x of File c \<Rightarrow> True | Dir sc \<Rightarrow> distinct_names sc) \<and> distinct_names es)"
  by (cases x) auto

lemma distinct_names_sub:
  "distinct_names s \<Longrightarrow> map_of s n = Some (Dir sc) \<Longrightarrow> distinct_names sc"
proof (induction s)
  case Nil
  then show ?case by simp
next
  case (Cons e es)
  obtain m x where e: "e = (m, x)" by (cases e)
  with Cons show ?case by (cases "m = n") (auto simp: distinct_names_Cons)
qed

text \<open>What the loop leaves under a name of the source: the step of that one entry.\<close>

lemma copy_entries_at:
  "distinct_names s \<Longrightarrow> map_of s n = Some x \<Longrightarrow>
     map_of (snd (copy_entries s d)) n = map_of (snd (entry_step (n, x) d)) n"
proof (induction s arbitrary: d)
  case Nil
  then show ?case by simp
next
  case (Cons e es)
  obtain m y where e: "e = (m, y)" by (cases e)
  show ?case
  proof (cases "m = n")
    case True
    with Cons.prems e have "y = x" "n \<notin> fst ` set es" by (auto simp: distinct_names_Cons)
    with e True show ?thesis
      by (simp add: copy_entries_Cons copy_names_frame del: entry_step.simps)
  next
    case False
    with Cons.prems e have 1: "distinct_names es" and 2: "map_of es n = Some x"
      by (auto simp: distinct_names_Cons)
    have same: "map_of (snd (entry_step e d)) n = map_of d n"
      using False e by (simp add: entry_step_other del: entry_step.simps)
    have "map_of (snd (entry_step (n, x) (snd (entry_step e d)))) n = map_of (snd (entry_step (n, x) d)) n"
      using same by (cases x) (auto simp: update_conv' copy2.simps split: option.splits node.splits)
    with Cons.IH[OF 1 2, of "snd (entry_step e d)"] show ?thesis
      by (simp add: copy_entries_Cons del: entry_step.simps)
  qed
qed

lemma copy_entries_flag:
  "distinct_names s \<Longrightarrow> map_of s n = Some x \<Longrightarrow> \<not> fst (copy_entries s d) \<Longrightarrow>
     \<not> fst (entry_step (n, x) d)"
proof (induction s arbitrary: d)
  case Nil
  then show ?case by simp
next
  case (Cons e es)
  obtain m y where e: "e = (m, y)" by (cases e)
  from Cons.prems(3) have f0: "\<not> fst (entry_step e d)"
    and f1: "\<not> fst (copy_entries es (snd (entry_step e d)))"
    by (simp_all add: copy_entries_Cons del: entry_step.simps)
  show ?case
  proof (cases "m = n")
    case True
    with Cons.prems e have "y = x" by simp
    with f0 e True show ?thesis by simp
  next
    case False
    with Cons.prems e have 1: "distinct_names es" and 2: "map_of es n = Some x"
      by (auto simp: distinct_names_Cons)
    have same: "map_of (snd (entry_step e d)) n = map_of d n"
      using False e by (simp add: entry_step_other del: entry_step.simps)
    have "fst (entry_step (n, x) (snd (entry_step e d))) = fst (entry_step (n, x) d)"
      using same by (cases x) (auto simp: update_conv' copy2.simps split: option.splits node.splits)
    with Cons.IH[OF 1 2 f1] show ?thesis by simp
  qed
qed

section \<open>The copy loop, path by path\<close>

lemma is_dir_Nil: "is_dir [] q = (q = [])"
  by (cases q) (simp_all add: is_dir_def)

lemma copied_file:
  "distinct_names s \<Longrightarrow> \<not> fst (copy_entries s d) \<Longrightarrow> lookup s p = Some (File c) \<Longrightarrow>
   \<not> is_dir d p \<Longrightarrow> lookup (snd (copy_entries s d)) p = Some (File c)"
proof (induction p arbitrary: s d)
  case Nil
  then show ?case by simp
next
  case (Cons n q)
  from Cons.prems(3) obtain x where x: "map_of s n = Some x"
    by (cases "map_of s n") auto
  note at = copy_entries_at[OF Cons.prems(1) x, of d]
  note fl = copy_entries_flag[OF Cons.prems(1) x Cons.prems(2)]
  show ?case
  proof (cases x)
    case (File c')
    with x Cons.prems(3) have q: "q = []" and c: "c' = c" by (auto split: if_splits)
    from Cons.prems(4) q have "\<forall>ch. map_of d n \<noteq> Some (Dir ch)"
      by (auto simp: is_dir_def)
    hence "map_of (snd (entry_step (n, File c) d)) n = Some (File c)"
      by (auto simp: copy2.simps update_conv' split: option.splits node.splits)
    with at File c q show ?thesis by simp
  next
    case (Dir sc)
    with x Cons.prems(3) have l: "lookup sc q = Some (File c)" by simp
    hence qn: "q \<noteq> []" by auto
    have dsc: "distinct_names sc" using distinct_names_sub[OF Cons.prems(1)] x Dir by simp
    show ?thesis
    proof (cases "map_of d n")
      case None
      with fl Dir have f: "\<not> fst (copy_entries sc [])" by simp
      have "\<not> is_dir [] q" using qn by (simp add: is_dir_Nil)
      from Cons.IH[OF dsc f l this] at Dir None show ?thesis by (simp add: update_conv')
    next
      case (Some y)
      show ?thesis
      proof (cases y)
        case (File z)
        with fl Dir Some show ?thesis by simp
      next
        case (Dir ch)
        with fl \<open>x = Dir sc\<close> Some have f: "\<not> fst (copy_entries sc ch)" by simp
        from Cons.prems(4) Some Dir have "\<not> is_dir ch q" by (simp add: is_dir_def)
        from Cons.IH[OF dsc f l this] at \<open>x = Dir sc\<close> Some Dir show ?thesis
          by (simp add: update_conv')
      qed
    qed
  qed
qed

lemma copied_dir:
  "distinct_names s \<Longrightarrow> \<not> fst (copy_entries s d) \<Longrightarrow> lookup s p = Some (Dir x) \<Longrightarrow>
   is_dir (snd (copy_entries s d)) p"
proof (induction p arbitrary: s d x)
  case Nil
  then show ?case by (simp add: is_dir_def)
next
  case (Cons n q)
  from Cons.prems(3) obtain y where y: "map_of s n = Some y"
    by (cases "map_of s n") auto
  from Cons.prems(3) y obtain sc where sc: "y = Dir sc" and l: "lookup sc q = Some (Dir x)"
    by (cases y) (auto split: if_splits)
  note at = copy_entries_at[OF Cons.prems(1) y, of d]
  note fl = copy_entries_flag[OF Cons.prems(1) y Cons.prems(2)]
  have dsc: "distinct_names sc" using distinct_names_sub[OF Cons.prems(1)] y sc by simp
  show ?case
  proof (cases "map_of d n")
    case None
    with fl sc have f: "\<not> fst (copy_entries sc [])" by simp
    from Cons.IH[OF dsc f l] at sc None show ?thesis by (simp add: update_conv' is_dir_def)
  next
    case (Some z)
    show ?thesis
    proof (cases z)
      case (File c)
      with fl sc Some show ?thesis by simp
    next
      case (Dir ch)
      with fl sc Some have f: "\<not> fst (copy_entries sc ch)" by simp
      from Cons.IH[OF dsc f l] at sc Some Dir show ?thesis by (simp add: update_conv' is_dir_def)
    qed
  qed
qed

lemma copy_frame:
  "distinct_names s \<Longrightarrow> \<forall>q c. lookup s q = Some (File c) \<longrightarrow> \<not> is_dir d q \<Longrightarrow>
   lookup s p = None \<Longrightarrow> lookup (snd (copy_entries s d)) p = lookup d p"
proof (induction p arbitrary: s d)
  case Nil
  then show ?case by simp
next
  case (Cons n q)
  show ?case
  proof (cases "map_of s n")
    case None
    hence "n \<notin> fst ` set s" by (simp add: map_of_eq_None_iff)
    from copy_names_frame[OF this] show ?thesis by simp
  next
    case (Some x)
    note at = copy_entries_at[OF Cons.prems(1) Some, of d]
    show ?thesis
    proof (cases x)
      case (File c)
      with Some Cons.prems(3) have qn: "q \<noteq> []" by (auto split: if_splits)
      from Some File have "lookup s [n] = Some (File c)" by simp
      with Cons.prems(2) have "\<not> is_dir d [n]" by blast
      hence nd: "\<forall>ch. map_of d n \<noteq> Some (Dir ch)" by (auto simp: is_dir_def)
      hence "map_of (snd (entry_step (n, File c) d)) n = Some (File c)"
        by (auto simp: copy2.simps update_conv' split: option.splits node.splits)
      with at File qn nd show ?thesis by (auto split: option.splits node.splits)
    next
      case (Dir sc)
      with Some Cons.prems(3) have l: "lookup sc q = None" by simp
      hence qn: "q \<noteq> []" by auto
      have dsc: "distinct_names sc" using distinct_names_sub[OF Cons.prems(1)] Some Dir by simp
      show ?thesis
      proof (cases "map_of d n")
        case None
        have "\<forall>q' c. lookup sc q' = Some (File c) \<longrightarrow> \<not> is_dir [] q'"
          by (auto simp: is_dir_Nil)
        from Cons.IH[OF dsc this l] at Dir None qn show ?thesis
          by (simp add: update_conv' lookup_Nil_path)
      next
        case (Some y)
        note dn = Some
        show ?thesis
        proof (cases y)
          case (File z)
          with at \<open>x = Dir sc\<close> dn show ?thesis by simp
        next
          case (Dir ch)
          have "\<forall>q' c. lookup sc q' = Some (File c) \<longrightarrow> \<not> is_dir ch q'"
          proof (intro allI impI)
            fix q' c assume "lookup sc q' = Some (File c)"
            with \<open>map_of s n = Some x\<close> \<open>x = Dir sc\<close> have "lookup s (n # q') = Some (File c)" by simp
            with Cons.prems(2) have "\<not> is_dir d (n # q')" by blast
            with dn Dir show "\<not> is_dir ch q'" by (simp add: is_dir_def)
          qed
          from Cons.IH[OF dsc this l] at \<open>x = Dir sc\<close> dn Dir show ?thesis
            by (simp add: update_conv')
        qed
      qed
    qed
  qed
qed

section \<open>Copying twice\<close>

lemma entry_step_idem:
  assumes sub: "\<And>sc ch. x = Dir sc \<Longrightarrow> copy_entries sc (snd (copy_entries sc ch)) = copy_entries sc ch"
    and same: "map_of d' n = map_of (snd (entry_step (n, x) d)) n"
  shows "entry_step (n, x) d' = (fst (entry_step (n, x) d), d')"
proof (cases x)
  case (File c)
  show ?thesis
  proof (cases "copy2 n c d")
    case None
    with same File have "map_of d' n = map_of d n" by simp
    with None have "copy2 n c d' = None"
      by (auto simp: copy2.simps split: option.splits node.splits)
    with None File show ?thesis by simp
  next
    case (Some d1)
    with same File have m: "map_of d' n = map_of d1 n" by simp
    from Some have "map_of d1 n = Some (File c)
        \<or> (\<exists>ch. map_of d1 n = Some (Dir ch) \<and> map_of ch n = Some (File c))"
      by (auto simp: copy2.simps update_conv' split: option.splits node.splits)
    with m have "copy2 n c d' = Some d'"
      by (auto simp: copy2.simps update_triv split: option.splits node.splits)
    with Some File show ?thesis by simp
  qed
next
  case (Dir sc)
  note sb = sub[OF Dir]
  show ?thesis
  proof (cases "map_of d n")
    case None
    with same Dir have "map_of d' n = Some (Dir (snd (copy_entries sc [])))"
      by (simp add: update_conv')
    with None Dir sb[of "[]"] show ?thesis by (simp add: update_triv)
  next
    case (Some y)
    show ?thesis
    proof (cases y)
      case (File z)
      with same Some Dir show ?thesis by simp
    next
      case (Dir ch)
      with same Some \<open>x = Dir sc\<close> have "map_of d' n = Some (Dir (snd (copy_entries sc ch)))"
        by (simp add: update_conv')
      with Some Dir \<open>x = Dir sc\<close> sb[of ch] show ?thesis by (simp add: update_triv)
    qed
  qed
qed

lemma copy_entries_idem:
  "distinct_names s \<Longrightarrow> copy_entries s (snd (copy_entries s d)) = copy_entries s d"
proof (induction s arbitrary: d rule: distinct_names.induct)
  case 1
  then show ?case by simp
next
  case (2 n c es)
  let ?e = "(n, File c)"
  let ?d1 = "snd (entry_step ?e d)"
  let ?d' = "snd (copy_entries es ?d1)"
  from "2.prems" have nin: "n \<notin> fst ` set es" and des: "distinct_names es" by simp_all
  have "map_of ?d' n = map_of ?d1 n" by (rule copy_names_frame[OF nin])
  hence st: "entry_step ?e ?d' = (fst (entry_step ?e d), ?d')"
    by (intro entry_step_idem) simp_all
  have sd: "snd (copy_entries (?e # es) d) = ?d'"
    by (simp add: copy_entries_Cons del: entry_step.simps)
  show ?case
    unfolding sd
    by (subst (1 2) copy_entries_Cons) (simp add: st "2.IH"[OF des] del: entry_step.simps)
next
  case (3 n sc es)
  let ?e = "(n, Dir sc)"
  let ?d1 = "snd (entry_step ?e d)"
  let ?d' = "snd (copy_entries es ?d1)"
  from "3.prems" have nin: "n \<notin> fst ` set es" and dsc: "distinct_names sc"
    and des: "distinct_names es" by simp_all
  have "map_of ?d' n = map_of ?d1 n" by (rule copy_names_frame[OF nin])
  hence st: "entry_step ?e ?d' = (fst (entry_step ?e d), ?d')"
    using "3.IH"(1)[OF dsc] by (intro entry_step_idem) simp_all
  have sd: "snd (copy_entries (?e # es) d) = ?d'"
    by (simp add: copy_entries_Cons del: entry_step.simps)
  show ?case
    unfolding sd
    by (subst (1 2) copy_entries_Cons) (simp add: st "3.IH"(2)[OF des] del: entry_step.simps)
qed

section \<open>The run as a whole\<close>

text \<open>The run, in terms of the file system before it and of the cloned content.\<close>

lemma fetch_view:
  assumes f: "fetch file clone fs = (None, fs1)"
  shows "is_dir fs1 [''tmp_hf_repo'', k] = is_dir (snd (clone [])) [k]"
    and "subdir fs1 [''tmp_hf_repo'', k] = subdir (snd (clone [])) [k]"
    and "d \<in> set (all_dests pr (tasks pr)) \<Longrightarrow> lookup fs1 d = lookup fs d"
    and "d \<in> set (all_dests pr (tasks pr)) \<Longrightarrow> subdir fs1 d = subdir fs d"
    and "d \<in> set (all_dests pr (tasks pr)) \<Longrightarrow> is_dir fs1 d = is_dir fs d"
proof -
  have tmp: "subdir fs1 [''tmp_hf_repo''] = snd (clone [])"
    using fetch_ok[OF f] by (simp add: subdir_def)
  show "is_dir fs1 [''tmp_hf_repo'', k] = is_dir (snd (clone [])) [k]"
    using is_dir_Cons_subdir[of "[k]" fs1 "''tmp_hf_repo''"] tmp by simp
  show "subdir fs1 [''tmp_hf_repo'', k] = subdir (snd (clone [])) [k]"
    using lookup_Cons_subdir[of fs1 "''tmp_hf_repo''" "[k]"] tmp by simp
  assume "d \<in> set (all_dests pr (tasks pr))"
  from dest_head[OF this] fetch_frame[OF f] show l: "lookup fs1 d = lookup fs d" by auto
  thus "subdir fs1 d = subdir fs d" "is_dir fs1 d = is_dir fs d"
    by (simp_all add: subdir_def is_dir_def)
qed

lemma run_success:
  assumes r: "run file clone fs = (None, fs')"
    and m: "(k, ds) \<in> set (tasks (project_root file))"
    and d: "d \<in> set (dest_paths (project_root file) ds)"
  shows "is_dir (snd (clone [])) [k]"
    and "lookup fs' d = Some (Dir (snd (copy_entries (subdir (snd (clone [])) [k]) (subdir fs d))))"
    and "\<not> fst (copy_entries (subdir (snd (clone [])) [k]) (subdir fs d))"
proof -
  let ?pr = "project_root file"
  obtain e1 fs1 where f1: "fetch file clone fs = (e1, fs1)" by (cases "fetch file clone fs")
  with r have f: "fetch file clone fs = (None, fs1)" by (cases e1) (auto simp: run_def)
  from run_copy[OF f] r
  have c: "copy_tasks ?pr (joinpath ?pr ''tmp_hf_repo'') (tasks ?pr) fs1 = (None, fs')" by simp
  from copy_tasks_spec[OF tasks_off_tmp tasks_apart c] m d
  have "is_dir fs1 [''tmp_hf_repo'', k]"
    and "copied (subdir fs1 [''tmp_hf_repo'', k]) fs1 fs' d"
    and "\<not> fst (copy_entries (subdir fs1 [''tmp_hf_repo'', k]) (subdir fs1 d))"
    by blast+
  with fetch_view[OF f] all_dests_mem[OF m d]
  show "is_dir (snd (clone [])) [k]"
    and "lookup fs' d = Some (Dir (snd (copy_entries (subdir (snd (clone [])) [k]) (subdir fs d))))"
    and "\<not> fst (copy_entries (subdir (snd (clone [])) [k]) (subdir fs d))"
    by (simp_all add: copied_def)
qed

lemma run_dest:
  assumes r: "run file clone fs = (e, fs')"
    and m: "(k, ds) \<in> set (tasks (project_root file))"
    and d: "d \<in> set (dest_paths (project_root file) ds)"
  shows "lookup fs' d = lookup fs d
       \<or> (is_dir (snd (clone [])) [k]
          \<and> lookup fs' d = Some (Dir (snd (copy_entries (subdir (snd (clone [])) [k]) (subdir fs d)))))"
proof -
  let ?pr = "project_root file"
  note a = all_dests_mem[OF m d]
  obtain e1 fs1 where f1: "fetch file clone fs = (e1, fs1)" by (cases "fetch file clone fs")
  show ?thesis
  proof (cases e1)
    case (Some e0)
    with f1 r have "fs' = fs1" by (simp add: run_def)
    with dest_head[OF a] fetch_frame[OF f1] show ?thesis by auto
  next
    case None
    with f1 have f: "fetch file clone fs = (None, fs1)" by simp
    from run_copy[OF f] r
    have c: "copy_tasks ?pr (joinpath ?pr ''tmp_hf_repo'') (tasks ?pr) fs1 = (e, fs')" by simp
    from copy_tasks_spec[OF tasks_off_tmp tasks_apart c] m d
    have "lookup fs' d = lookup fs1 d
        \<or> (is_dir fs1 [''tmp_hf_repo'', k] \<and> copied (subdir fs1 [''tmp_hf_repo'', k]) fs1 fs' d)"
      by blast
    with fetch_view[OF f] a show ?thesis by (simp add: copied_def)
  qed
qed

lemma fetch_existing:
  assumes "is_dir fs (tmp_dir file)"
  shows "\<exists>fs1. fetch file clone fs = (if fst (clone []) then None else Some CloneError, fs1)
           \<and> (\<forall>p. lookup fs1 (tmp_dir file @ p) = lookup (snd (clone [])) p)"
proof -
  from assms obtain old where old: "map_of fs ''tmp_hf_repo'' = Some (Dir old)"
    by (auto simp: is_dir_def tmp_dir_eq split: option.splits node.splits)
  define fs0 where "fs0 = AList.delete ''tmp_hf_repo'' fs"
  have gone: "map_of fs0 ''tmp_hf_repo'' = None"
    by (simp add: fs0_def)
  have rm: "(if exists fs [''tmp_hf_repo''] then rmtree [''tmp_hf_repo''] fs else Inr fs) = Inr fs0"
    using old by (simp add: exists_def fs0_def)
  define fs1 where
    "fs1 = AList.update ''tmp_hf_repo'' (Dir (snd (clone [])))
             (AList.update ''tmp_hf_repo'' (Dir []) fs0)"
  have "Repository [''tmp_hf_repo''] clone fs0 = (if fst (clone []) then None else Some CloneError, fs1)"
    using gone by (simp add: Repository_def subdir_def update_conv' fs1_def split: prod.splits)
  hence "fetch file clone fs = (if fst (clone []) then None else Some CloneError, fs1)"
    using rm by (simp add: fetch_def tmp_dir_def[symmetric] tmp_dir_eq)
  moreover have "\<forall>p. lookup fs1 (tmp_dir file @ p) = lookup (snd (clone [])) p"
    by (simp add: fs1_def tmp_dir_eq update_conv')
  ultimately show ?thesis by blast
qed

lemma run_keeps_clone:
  assumes "fetch file clone fs = (None, fs1)"
  shows "\<exists>e fs'. run file clone fs = (e, fs')
           \<and> (\<forall>p. lookup fs' (tmp_dir file @ p) = lookup fs1 (tmp_dir file @ p))
           \<and> lookup fs' (tmp_dir file) = Some (Dir (snd (clone [])))"
proof -
  let ?pr = "project_root file"
  obtain e fs' where r: "run file clone fs = (e, fs')" by (cases "run file clone fs")
  with run_copy[OF assms]
  have c: "copy_tasks ?pr (joinpath ?pr ''tmp_hf_repo'') (tasks ?pr) fs1 = (e, fs')" by simp
  from copy_tasks_spec[OF tasks_off_tmp tasks_apart c]
  have F: "\<And>q. (\<forall>d\<in>set (all_dests ?pr (tasks ?pr)). diverge d q) \<Longrightarrow> lookup fs' q = lookup fs1 q"
    by blast
  have "\<forall>p. lookup fs' (tmp_dir file @ p) = lookup fs1 (tmp_dir file @ p)"
  proof
    fix p
    have "\<forall>d\<in>set (all_dests ?pr (tasks ?pr)). diverge d ([''tmp_hf_repo''] @ p)"
      using tasks_off_tmp[of ?pr] diverge_append by blast
    from F[OF this] show "lookup fs' (tmp_dir file @ p) = lookup fs1 (tmp_dir file @ p)"
      by (simp only: tmp_dir_eq)
  qed
  moreover from this[rule_format, of "[]"] fetch_ok[OF assms]
  have "lookup fs' (tmp_dir file) = Some (Dir (snd (clone [])))" by (simp add: tmp_dir_eq)
  ultimately show ?thesis using r by blast
qed

lemma is_dir_prefix: "is_dir fs (p @ q) \<Longrightarrow> is_dir fs p"
  by (auto simp: is_dir_def lookup_append split: option.splits node.splits if_splits)

lemma distinct_names_subdir: "distinct_names r \<Longrightarrow> distinct_names (subdir r [k])"
  by (auto simp: subdir_def dest: distinct_names_sub split: option.splits node.splits)

lemma lookup_key: "is_dir r [k] \<Longrightarrow> lookup r (k # p) = lookup (subdir r [k]) p"
  by (auto simp: is_dir_def subdir_def split: option.splits node.splits)

lemma is_dir_below: "p \<noteq> [] \<Longrightarrow> is_dir fs (d @ p) = is_dir (subdir fs d) p"
  by (simp add: is_dir_def lookup_below)

lemma lookup_at_dir: "lookup fs d = Some (Dir c) \<Longrightarrow> lookup fs (d @ p) = lookup c p"
  by (simp add: lookup_append)

section \<open>Where creating a directory fails\<close>

lemma mkdir_error_Nil [simp]: "mkdir_error_of fs [] = None"
  by (simp add: mkdir_error_of_def)

lemma mkdir_error_fresh [simp]: "mkdir_error_of [] q = None"
  using mkdir_fresh[of q] by (auto simp: mkdir_error_of_def)

lemma mkdir_error_Cons:
  "mkdir_error_of fs (n # q) =
     (case map_of fs n of
        None \<Rightarrow> None
      | Some (File c) \<Rightarrow> Some (if q = [] then FileExistsError else NotADirectoryError)
      | Some (Dir ch) \<Rightarrow> mkdir_error_of ch q)"
  using mkdir_fresh[of q]
  by (auto simp: mkdir_error_of_def split: option.splits node.splits sum.splits)

lemma mkdir_error_mkdir:
  "mkdir_parents p fs = Inr fs1 \<Longrightarrow> diverge p q \<Longrightarrow> mkdir_error_of fs1 q = mkdir_error_of fs q"
proof (induction p fs arbitrary: fs1 q rule: mkdir_parents.induct)
  case (1 fs)
  then show ?case by simp
next
  case (2 n p fs)
  from "2.prems"(2) obtain a q' where q: "q = a # q'" by (cases q) auto
  show ?case
  proof (cases "a = n")
    case False
    with "2.prems" q show ?thesis
      by (auto simp: mkdir_error_Cons update_conv' split: option.splits node.splits sum.splits)
  next
    case True
    with "2.prems" q have d: "diverge p q'" by simp
    show ?thesis
    proof (cases "map_of fs n")
      case None
      with "2.prems"(1) obtain ch' where c: "mkdir_parents p [] = Inr ch'"
        and f: "fs1 = AList.update n (Dir ch') fs"
        by (auto split: sum.splits)
      from "2.IH"(1)[OF None c d] have "mkdir_error_of ch' q' = mkdir_error_of [] q'" .
      thus ?thesis using None f q True by (simp add: mkdir_error_Cons update_conv')
    next
      case (Some x)
      show ?thesis
      proof (cases x)
        case (File c)
        with Some "2.prems"(1) show ?thesis by simp
      next
        case (Dir ch)
        with Some "2.prems"(1) obtain ch' where c: "mkdir_parents p ch = Inr ch'"
          and f: "fs1 = AList.update n (Dir ch') fs"
          by (auto split: sum.splits)
        from "2.IH"(2)[OF Some Dir c d] show ?thesis using Some Dir f q True
          by (simp add: mkdir_error_Cons update_conv')
      qed
    qed
  qed
qed

lemma mkdir_error_put:
  "diverge p q \<Longrightarrow> mkdir_error_of (put p c fs) q = mkdir_error_of fs q"
proof (induction p c fs arbitrary: q rule: put.induct)
  case (1 c fs)
  then show ?case by simp
next
  case (2 n p c fs)
  from "2.prems" obtain a q' where q: "q = a # q'" by (cases q) auto
  show ?case
  proof (cases "map_of fs n")
    case None
    then show ?thesis by simp
  next
    case (Some x)
    show ?thesis
    proof (cases x)
      case (File c)
      with Some show ?thesis by simp
    next
      case (Dir ch)
      show ?thesis
      proof (cases "a = n")
        case True
        with "2.prems" q have "diverge p q'" by simp
        from "2.IH"[OF Some Dir this] show ?thesis using Some Dir q True
          by (simp add: mkdir_error_Cons update_conv')
      next
        case False
        then show ?thesis using Some Dir q by (simp add: mkdir_error_Cons update_conv')
      qed
    qed
  qed
qed

lemma mkdir_error_copytree:
  "copytree src dst fs = (e, fs') \<Longrightarrow> diverge dst q \<Longrightarrow> mkdir_error_of fs' q = mkdir_error_of fs q"
  by (auto simp: copytree_def mkdir_error_put mkdir_error_mkdir
      split: option.splits node.splits sum.splits prod.splits)

lemma mkdir_error_copy_dests:
  "copy_dests pr src ds fs = (e, fs') \<Longrightarrow> \<forall>d\<in>set (dest_paths pr ds). diverge d q \<Longrightarrow>
     mkdir_error_of fs' q = mkdir_error_of fs q"
proof (induction ds arbitrary: fs)
  case Nil
  then show ?case by simp
next
  case (Cons bs ds)
  obtain b s where bs: "bs = (b, s)" by (cases bs)
  define d0 where "d0 = below pr (joinpath b s)"
  have dps: "dest_paths pr (bs # ds) = d0 # dest_paths pr ds"
    by (simp add: dest_paths_def bs d0_def)
  with Cons.prems(2) have d0: "diverge d0 q" and ds: "\<forall>d\<in>set (dest_paths pr ds). diverge d q"
    by simp_all
  show ?case
  proof (cases "mkdir_parents d0 fs")
    case (Inl e0)
    with Cons.prems(1) bs d0_def show ?thesis by simp
  next
    case (Inr fs1)
    obtain e1 fs2 where ct: "copytree (below pr src) d0 fs1 = (e1, fs2)"
      by (cases "copytree (below pr src) d0 fs1")
    have 2: "mkdir_error_of fs2 q = mkdir_error_of fs q"
      using mkdir_error_copytree[OF ct d0] mkdir_error_mkdir[OF Inr d0] by simp
    show ?thesis
    proof (cases e1)
      case (Some e0)
      with Cons.prems(1) bs d0_def Inr ct have "fs' = fs2" by simp
      with 2 show ?thesis by simp
    next
      case None
      with Cons.prems(1) bs d0_def Inr ct have "copy_dests pr src ds fs2 = (e, fs')" by simp
      from Cons.IH[OF this ds] 2 show ?thesis by simp
    qed
  qed
qed

lemma mkdir_error_copy_tasks:
  "copy_tasks pr tmp ts fs = (e, fs') \<Longrightarrow> \<forall>d\<in>set (all_dests pr ts). diverge d q \<Longrightarrow>
     mkdir_error_of fs' q = mkdir_error_of fs q"
proof (induction ts arbitrary: fs)
  case Nil
  then show ?case by simp
next
  case (Cons kd ts)
  obtain k ds where kd: "kd = (k, ds)" by (cases kd)
  from Cons.prems(2) kd have h: "\<forall>d\<in>set (dest_paths pr ds). diverge d q"
    and t: "\<forall>d\<in>set (all_dests pr ts). diverge d q" by (simp_all add: all_dests_Cons)
  show ?case
  proof (cases "is_dir fs (below pr (joinpath tmp k))")
    case False
    with Cons.prems(1) kd show ?thesis by simp
  next
    case True
    obtain e1 fs1 where cd: "copy_dests pr (joinpath tmp k) ds fs = (e1, fs1)"
      by (cases "copy_dests pr (joinpath tmp k) ds fs")
    note 1 = mkdir_error_copy_dests[OF cd h]
    show ?thesis
    proof (cases e1)
      case (Some e0)
      with Cons.prems(1) kd True cd have "fs' = fs1" by simp
      with 1 show ?thesis by simp
    next
      case None
      with Cons.prems(1) kd True cd have "copy_tasks pr tmp ts fs1 = (e, fs')" by simp
      from Cons.IH[OF this t] 1 show ?thesis by simp
    qed
  qed
qed

lemma fetch_names:
  "fetch file clone fs = (e, fs1) \<Longrightarrow> a \<noteq> ''tmp_hf_repo'' \<Longrightarrow> map_of fs1 a = map_of fs a"
  by (auto simp: fetch_def tmp_repo_def exists_def Repository_def subdir_def update_conv'
      split: option.splits node.splits prod.splits if_splits)

lemma mkdir_error_fetch:
  "fetch file clone fs = (e, fs1) \<Longrightarrow> a \<noteq> ''tmp_hf_repo'' \<Longrightarrow>
     mkdir_error_of fs1 (a # q) = mkdir_error_of fs (a # q)"
  by (simp add: mkdir_error_Cons fetch_names)

section \<open>Running the loops a second time\<close>

lemma mkdir_error_existing: "is_dir fs d \<Longrightarrow> mkdir_error_of fs d = None"
  by (simp add: mkdir_error_of_def mkdir_existing)

lemma copy_dests_replay:
  "lookup fsA (below pr src) = Some (Dir sc) \<Longrightarrow>
   lookup fsB (below pr src) = Some (Dir sc) \<Longrightarrow>
   distinct_names sc \<Longrightarrow>
   \<forall>d\<in>set (dest_paths pr ds). diverge d (below pr src) \<Longrightarrow>
   apart (dest_paths pr ds) \<Longrightarrow>
   copy_dests pr src ds fsA = (e, fsA') \<Longrightarrow>
   \<forall>d\<in>set (dest_paths pr ds). lookup fsB d = lookup fsA' d \<Longrightarrow>
   \<forall>d\<in>set (dest_paths pr ds). mkdir_error_of fsB d = mkdir_error_of fsA' d \<Longrightarrow>
     \<exists>fsB'. copy_dests pr src ds fsB = (e, fsB')
          \<and> (\<forall>d\<in>set (dest_paths pr ds). lookup fsB' d = lookup fsA' d)"
proof (induction ds arbitrary: fsA fsB)
  case Nil
  then show ?case by (simp add: dest_paths_def)
next
  case (Cons bs ds)
  obtain b s where bs: "bs = (b, s)" by (cases bs)
  define d0 where "d0 = below pr (joinpath b s)"
  let ?sp = "below pr src"
  have dps: "dest_paths pr (bs # ds) = d0 # dest_paths pr ds"
    by (simp add: dest_paths_def bs d0_def)
  from Cons.prems(4) dps have dv0: "diverge d0 ?sp"
    and dvs: "\<forall>d\<in>set (dest_paths pr ds). diverge d ?sp" by simp_all
  from Cons.prems(5) dps have ap0: "\<forall>d\<in>set (dest_paths pr ds). diverge d0 d"
    and aps: "apart (dest_paths pr ds)" by simp_all
  from Cons.prems(7) dps have same0: "lookup fsB d0 = lookup fsA' d0"
    and sames: "\<forall>d\<in>set (dest_paths pr ds). lookup fsB d = lookup fsA' d" by simp_all
  from Cons.prems(8) dps have mk0: "mkdir_error_of fsB d0 = mkdir_error_of fsA' d0"
    and mks: "\<forall>d\<in>set (dest_paths pr ds). mkdir_error_of fsB d = mkdir_error_of fsA' d" by simp_all
  show ?case
  proof (cases "mkdir_parents d0 fsA")
    case (Inl x)
    with Cons.prems(6) bs d0_def have r: "e = Some x" "fsA' = fsA" by simp_all
    from Inl have "mkdir_error_of fsA d0 = Some x" by (simp add: mkdir_error_of_def)
    with mk0 r have "mkdir_parents d0 fsB = Inl x"
      by (auto simp: mkdir_error_of_def split: sum.splits)
    hence "copy_dests pr src (bs # ds) fsB = (e, fsB)" using bs d0_def r by simp
    with Cons.prems(7) show ?thesis by blast
  next
    case (Inr fs1)
    obtain e1 fsA2 where ct: "copytree ?sp d0 fs1 = (e1, fsA2)"
      by (cases "copytree ?sp d0 fs1")
    note st = dest_step[OF Cons.prems(1) dv0 Inr ct]
    define X where "X = snd (copy_entries sc (subdir fsA d0))"
    have idem: "copy_entries sc X = (fst (copy_entries sc (subdir fsA d0)), X)"
      using copy_entries_idem[OF Cons.prems(3), of "subdir fsA d0"] by (simp add: X_def)
    have a2: "lookup fsA2 d0 = Some (Dir X)" using st(2) by (simp add: X_def)
    have kept: "lookup fsA' d0 = Some (Dir X)"
    proof (cases e1)
      case (Some e0)
      with Cons.prems(6) bs d0_def Inr ct have "fsA' = fsA2" by simp
      with a2 show ?thesis by simp
    next
      case None
      with Cons.prems(6) bs d0_def Inr ct have r: "copy_dests pr src ds fsA2 = (e, fsA')" by simp
      have s2: "lookup fsA2 ?sp = Some (Dir sc)" using st(3)[OF dv0] Cons.prems(1) by simp
      from copy_dests_spec[OF s2 dvs aps r] ap0 have "lookup fsA' d0 = lookup fsA2 d0"
        by (metis diverge_sym)
      with a2 show ?thesis by simp
    qed
    with same0 have b0: "lookup fsB d0 = Some (Dir X)" by simp
    hence dirB: "is_dir fsB d0" and subB: "subdir fsB d0 = X"
      by (simp_all add: is_dir_def subdir_def)
    have mkB: "mkdir_parents d0 fsB = Inr fsB" using dirB by (rule mkdir_existing)
    obtain e2 fsB2 where ctB: "copytree ?sp d0 fsB = (e2, fsB2)"
      by (cases "copytree ?sp d0 fsB")
    note stB = dest_step[OF Cons.prems(2) dv0 mkB ctB]
    have e2: "e2 = e1" using stB(1) st(1) subB idem by simp
    have b2: "lookup fsB2 d0 = Some (Dir X)" using stB(2) subB idem by simp
    have frameB: "\<And>q. diverge d0 q \<Longrightarrow> lookup fsB2 q = lookup fsB q" by (rule stB(3))
    have mkB2: "\<And>q. diverge d0 q \<Longrightarrow> mkdir_error_of fsB2 q = mkdir_error_of fsB q"
      using mkdir_error_copytree[OF ctB] by simp
    show ?thesis
    proof (cases e1)
      case (Some e0)
      with Cons.prems(6) bs d0_def Inr ct have r: "e = Some e0" "fsA' = fsA2" by simp_all
      from Some e2 mkB ctB bs d0_def r have "copy_dests pr src (bs # ds) fsB = (e, fsB2)" by simp
      moreover have "\<forall>d\<in>set (dest_paths pr (bs # ds)). lookup fsB2 d = lookup fsA' d"
        using dps b2 kept frameB ap0 sames by simp
      ultimately show ?thesis by blast
    next
      case None
      with Cons.prems(6) bs d0_def Inr ct have r: "copy_dests pr src ds fsA2 = (e, fsA')" by simp
      have sA2: "lookup fsA2 ?sp = Some (Dir sc)" using st(3)[OF dv0] Cons.prems(1) by simp
      have sB2: "lookup fsB2 ?sp = Some (Dir sc)" using frameB[OF dv0] Cons.prems(2) by simp
      have same2: "\<forall>d\<in>set (dest_paths pr ds). lookup fsB2 d = lookup fsA' d"
        using frameB ap0 sames by simp
      have mk2: "\<forall>d\<in>set (dest_paths pr ds). mkdir_error_of fsB2 d = mkdir_error_of fsA' d"
        using mkB2 ap0 mks by simp
      from Cons.IH[OF sA2 sB2 Cons.prems(3) dvs aps r same2 mk2] obtain fsB'
        where rB: "copy_dests pr src ds fsB2 = (e, fsB')"
          and eq: "\<forall>d\<in>set (dest_paths pr ds). lookup fsB' d = lookup fsA' d" by blast
      from copy_dests_spec[OF sB2 dvs aps rB] ap0 have "lookup fsB' d0 = lookup fsB2 d0"
        by (metis diverge_sym)
      with b2 kept have "lookup fsB' d0 = lookup fsA' d0" by simp
      with eq dps have "\<forall>d\<in>set (dest_paths pr (bs # ds)). lookup fsB' d = lookup fsA' d" by simp
      moreover from None e2 mkB ctB bs d0_def rB
      have "copy_dests pr src (bs # ds) fsB = (e, fsB')" by simp
      ultimately show ?thesis by blast
    qed
  qed
qed

lemma copy_tasks_replay:
  "\<forall>d\<in>set (all_dests pr ts). diverge d [t] \<Longrightarrow>
   apart (all_dests pr ts) \<Longrightarrow>
   \<forall>k. lookup fsB [t, k] = lookup fsA [t, k] \<Longrightarrow>
   \<forall>k. distinct_names (subdir fsA [t, k]) \<Longrightarrow>
   copy_tasks pr (joinpath pr t) ts fsA = (e, fs1) \<Longrightarrow>
   \<forall>d\<in>set (all_dests pr ts). lookup fsB d = lookup fs1 d \<Longrightarrow>
   \<forall>d\<in>set (all_dests pr ts). mkdir_error_of fsB d = mkdir_error_of fs1 d \<Longrightarrow>
     \<exists>fs2. copy_tasks pr (joinpath pr t) ts fsB = (e, fs2)
          \<and> (\<forall>d\<in>set (all_dests pr ts). lookup fs2 d = lookup fs1 d)"
proof (induction ts arbitrary: fsA fsB)
  case Nil
  then show ?case by (simp add: all_dests_def)
next
  case (Cons kd ts)
  obtain k ds where kd: "kd = (k, ds)" by (cases kd)
  let ?xs = "dest_paths pr ds" and ?ys = "all_dests pr ts"
  let ?src = "joinpath (joinpath pr t) k"
  have ad: "all_dests pr (kd # ts) = ?xs @ ?ys"
    by (simp add: kd all_dests_Cons)
  from Cons.prems(1) ad have dv0: "\<forall>d\<in>set ?xs. diverge d [t]"
    and dvs: "\<forall>d\<in>set ?ys. diverge d [t]" by simp_all
  from Cons.prems(2) ad have ap0: "apart ?xs" and aps: "apart ?ys"
    and cross: "\<forall>x\<in>set ?xs. \<forall>y\<in>set ?ys. diverge x y"
    by (simp_all add: apart_append)
  have cross': "\<forall>y\<in>set ?ys. \<forall>x\<in>set ?xs. diverge y x"
    using cross diverge_sym by blast
  from Cons.prems(6) ad have sameh: "\<forall>d\<in>set ?xs. lookup fsB d = lookup fs1 d"
    and samet: "\<forall>d\<in>set ?ys. lookup fsB d = lookup fs1 d" by simp_all
  from Cons.prems(7) ad have mkh: "\<forall>d\<in>set ?xs. mkdir_error_of fsB d = mkdir_error_of fs1 d"
    and mkt: "\<forall>d\<in>set ?ys. mkdir_error_of fsB d = mkdir_error_of fs1 d" by simp_all
  have dirs: "is_dir fsB [t, k] = is_dir fsA [t, k]"
    using Cons.prems(3) by (simp add: is_dir_def)
  show ?case
  proof (cases "is_dir fsA [t, k]")
    case False
    with Cons.prems(5) kd have "e = Some FileNotFoundError" "fs1 = fsA" by simp_all
    moreover from False dirs kd
    have "copy_tasks pr (joinpath pr t) (kd # ts) fsB = (Some FileNotFoundError, fsB)" by simp
    ultimately show ?thesis using Cons.prems(6) by blast
  next
    case True
    define sc where "sc = subdir fsA [t, k]"
    have srcA: "lookup fsA (below pr ?src) = Some (Dir sc)"
      using subdir_is_dir[OF True] by (simp add: sc_def)
    have srcB: "lookup fsB (below pr ?src) = Some (Dir sc)"
      using srcA Cons.prems(3) by simp
    have dsc: "distinct_names sc" using Cons.prems(4) by (simp add: sc_def)
    have dvk: "\<forall>d\<in>set ?xs. diverge d (below pr ?src)"
      using dv0 diverge_append[of _ "[t]" "[k]"] by simp
    have keyd: "\<And>d k'. d \<in> set ?xs \<Longrightarrow> diverge d [t, k']"
      using dv0 diverge_append[of _ "[t]"] by fastforce
    obtain e1 fsA' where cd: "copy_dests pr ?src ds fsA = (e1, fsA')"
      by (cases "copy_dests pr ?src ds fsA")
    from copy_dests_spec[OF srcA dvk ap0 cd]
    have FA: "\<And>q. (\<forall>d\<in>set ?xs. diverge d q) \<Longrightarrow> lookup fsA' q = lookup fsA q"
      by blast
    show ?thesis
    proof (cases e1)
      case (Some err)
      with Cons.prems(5) kd True cd have r: "e = Some err" "fs1 = fsA'" by simp_all
      from copy_dests_replay[OF srcA srcB dsc dvk ap0 cd] sameh mkh r obtain fsB'
        where cB: "copy_dests pr ?src ds fsB = (e1, fsB')"
          and eq: "\<forall>d\<in>set ?xs. lookup fsB' d = lookup fsA' d" by blast
      from copy_dests_spec[OF srcB dvk ap0 cB]
      have FB: "\<And>q. (\<forall>d\<in>set ?xs. diverge d q) \<Longrightarrow> lookup fsB' q = lookup fsB q" by blast
      have "\<forall>d\<in>set ?ys. lookup fsB' d = lookup fs1 d"
        using FB cross samet by simp
      with eq r ad have "\<forall>d\<in>set (all_dests pr (kd # ts)). lookup fsB' d = lookup fs1 d" by auto
      moreover from Some cB True dirs kd r
      have "copy_tasks pr (joinpath pr t) (kd # ts) fsB = (e, fsB')" by simp
      ultimately show ?thesis by blast
    next
      case None
      with Cons.prems(5) kd True cd have r: "copy_tasks pr (joinpath pr t) ts fsA' = (e, fs1)" by simp
      from copy_tasks_spec[OF dvs aps r]
      have F1: "\<And>q. (\<forall>d\<in>set ?ys. diverge d q) \<Longrightarrow> lookup fs1 q = lookup fsA' q" by blast
      have h1: "\<forall>d\<in>set ?xs. lookup fs1 d = lookup fsA' d"
        using F1 cross' by blast
      have m1: "\<forall>d\<in>set ?xs. mkdir_error_of fs1 d = mkdir_error_of fsA' d"
        using mkdir_error_copy_tasks[OF r] cross' by blast
      from sameh h1 have sameh': "\<forall>d\<in>set ?xs. lookup fsB d = lookup fsA' d" by simp
      from mkh m1 have mkh': "\<forall>d\<in>set ?xs. mkdir_error_of fsB d = mkdir_error_of fsA' d" by simp
      from copy_dests_replay[OF srcA srcB dsc dvk ap0 cd sameh' mkh'] obtain fsB'
        where cB: "copy_dests pr ?src ds fsB = (e1, fsB')"
          and eq: "\<forall>d\<in>set ?xs. lookup fsB' d = lookup fsA' d" by blast
      from copy_dests_spec[OF srcB dvk ap0 cB]
      have FB: "\<And>q. (\<forall>d\<in>set ?xs. diverge d q) \<Longrightarrow> lookup fsB' q = lookup fsB q" by blast
      have kB: "\<And>k'. lookup fsB' [t, k'] = lookup fsB [t, k']" using FB keyd by blast
      have kA: "\<And>k'. lookup fsA' [t, k'] = lookup fsA [t, k']" using FA keyd by blast
      have keys': "\<forall>k'. lookup fsB' [t, k'] = lookup fsA' [t, k']"
        using Cons.prems(3) by (simp only: kB kA) simp
      have "\<And>k'. subdir fsA' [t, k'] = subdir fsA [t, k']"
        by (simp only: subdir_def kA)
      hence dn': "\<forall>k'. distinct_names (subdir fsA' [t, k'])"
        using Cons.prems(4) by simp
      have samet': "\<forall>d\<in>set ?ys. lookup fsB' d = lookup fs1 d"
        using FB cross samet by simp
      have mkt': "\<forall>d\<in>set ?ys. mkdir_error_of fsB' d = mkdir_error_of fs1 d"
        using mkdir_error_copy_dests[OF cB] cross mkt by simp
      from Cons.IH[OF dvs aps keys' dn' r samet' mkt'] obtain fs2
        where r2: "copy_tasks pr (joinpath pr t) ts fsB' = (e, fs2)"
          and eq2: "\<forall>d\<in>set ?ys. lookup fs2 d = lookup fs1 d" by blast
      from copy_tasks_spec[OF dvs aps r2]
      have F2: "\<And>q. (\<forall>d\<in>set ?ys. diverge d q) \<Longrightarrow> lookup fs2 q = lookup fsB' q" by blast
      have "\<forall>d\<in>set ?xs. lookup fs2 d = lookup fs1 d"
        using F2 cross' eq h1 by simp
      with eq2 ad have "\<forall>d\<in>set (all_dests pr (kd # ts)). lookup fs2 d = lookup fs1 d" by auto
      moreover from None cB True dirs kd r2
      have "copy_tasks pr (joinpath pr t) (kd # ts) fsB = (e, fs2)" by simp
      ultimately show ?thesis by blast
    qed
  qed
qed

lemma fetch_failed_again:
  "fetch file clone fs = (Some err, fs1) \<Longrightarrow> \<exists>fs2. fetch file clone fs1 = (Some err, fs2)"
  by (auto simp: fetch_def tmp_repo_def exists_def Repository_def subdir_def update_conv'
      split: option.splits node.splits prod.splits if_splits)

section \<open>The examples, evaluated\<close>

lemmas run_simps =
  run_def fetch_def exists_def Repository_def subdir_def tmp_repo_def tasks_def is_dir_def
  copytree_def copy2.simps example_file_def example_clone_def

lemma example_run:
  "run example_file example_clone example_fs =
     (None,
      [(''Evaluation'',
        Dir [(''try1'',
              Dir [(''data'', Dir [(''f.txt'', Dir [(''f.txt'', File ''a'')])]),
                   (''models'', Dir [])]),
             (''try2'', Dir [(''data'', Dir []), (''models'', Dir [])])]),
       (''tmp_hf_repo'',
        Dir [(''data_vocab'', Dir [(''f.txt'', File ''a'')]),
             (''models_vocab'', Dir []), (''data _enronsent'', Dir []),
             (''models_enronsent'', Dir [])]),
       (''ML'',
        Dir [(''try1'',
              Dir [(''data'', Dir [(''f.txt'', File ''a'')]),
                   (''models'', Dir [])]),
             (''try2'', Dir [(''data'', Dir []), (''models'', Dir [])])])])"
  by (simp add: run_simps example_fs_def)

lemma example_run_empty:
  "run example_file example_clone [] =
     (None,
      [(''tmp_hf_repo'',
        Dir [(''data_vocab'', Dir [(''f.txt'', File ''a'')]),
             (''models_vocab'', Dir []), (''data _enronsent'', Dir []),
             (''models_enronsent'', Dir [])]),
       (''Evaluation'',
        Dir [(''try1'',
              Dir [(''data'', Dir [(''f.txt'', File ''a'')]),
                   (''models'', Dir [])]),
             (''try2'', Dir [(''data'', Dir []), (''models'', Dir [])])]),
       (''ML'',
        Dir [(''try1'',
              Dir [(''data'', Dir [(''f.txt'', File ''a'')]),
                   (''models'', Dir [])]),
             (''try2'', Dir [(''data'', Dir []), (''models'', Dir [])])])])"
  by (simp add: run_simps)

lemma example_run_kept:
  "run example_file example_clone example_kept =
     (None,
      [(''Evaluation'',
        Dir [(''try1'',
              Dir [(''data'',
                    Dir [(''keep.txt'', File ''k''), (''f.txt'', File ''a'')]),
                   (''models'', Dir [])]),
             (''try2'', Dir [(''data'', Dir []), (''models'', Dir [])])]),
       (''tmp_hf_repo'',
        Dir [(''data_vocab'', Dir [(''f.txt'', File ''a'')]),
             (''models_vocab'', Dir []), (''data _enronsent'', Dir []),
             (''models_enronsent'', Dir [])]),
       (''ML'',
        Dir [(''try1'',
              Dir [(''data'', Dir [(''f.txt'', File ''a'')]),
                   (''models'', Dir [])]),
             (''try2'', Dir [(''data'', Dir []), (''models'', Dir [])])])])"
  by (simp add: run_simps example_kept_def)

lemma example_distinct: "distinct_names (snd (example_clone []))"
  by (simp add: example_clone_def)

lemma example_entry:
  "(''data_vocab'',
    [(joinpath (joinpath (project_root example_file) ''Evaluation'') ''try1'', ''data''),
     (joinpath (joinpath (project_root example_file) ''ML'') ''try1'', ''data'')])
   \<in> set (tasks (project_root example_file))"
  by (simp add: tasks_def)

lemma example_dest:
  "[''Evaluation'', ''try1'', ''data'']
   \<in> set (dest_paths (project_root example_file)
       [(joinpath (joinpath (project_root example_file) ''Evaluation'') ''try1'', ''data''),
        (joinpath (joinpath (project_root example_file) ''ML'') ''try1'', ''data'')])"
  by (simp add: dest_paths_def)

lemma example_source_files:
  "lookup (snd (example_clone [])) (''data_vocab'' # q) = Some (File c) \<Longrightarrow> q = [''f.txt'']"
proof (cases q)
  case Nil
  assume "lookup (snd (example_clone [])) (''data_vocab'' # q) = Some (File c)"
  with Nil show ?thesis by (simp add: example_clone_def)
next
  case (Cons a q')
  assume "lookup (snd (example_clone [])) (''data_vocab'' # q) = Some (File c)"
  with Cons show ?thesis by (simp add: example_clone_def split: if_splits)
qed

section \<open>The order of the destinations\<close>

lemma copy_dests_prefix:
  "lookup fs (below pr src) = Some (Dir sc) \<Longrightarrow>
   \<forall>d\<in>set (dest_paths pr ds). diverge d (below pr src) \<Longrightarrow>
   apart (dest_paths pr ds) \<Longrightarrow>
   copy_dests pr src ds fs = (e, fs') \<Longrightarrow>
     \<exists>m\<le>length (dest_paths pr ds).
        (\<forall>d\<in>set (take m (dest_paths pr ds)). is_dir fs' d)
      \<and> (\<forall>d\<in>set (drop m (dest_paths pr ds)). lookup fs' d = lookup fs d)"
proof (induction ds arbitrary: fs)
  case Nil
  then show ?case by (simp add: dest_paths_def)
next
  case (Cons bs ds)
  obtain b s where bs: "bs = (b, s)" by (cases bs)
  define d0 where "d0 = below pr (joinpath b s)"
  have dps: "dest_paths pr (bs # ds) = d0 # dest_paths pr ds"
    by (simp add: dest_paths_def bs d0_def)
  from Cons.prems(2) dps have dv0: "diverge d0 (below pr src)"
    and dvs: "\<forall>d\<in>set (dest_paths pr ds). diverge d (below pr src)" by simp_all
  from Cons.prems(3) dps have ap0: "\<forall>d\<in>set (dest_paths pr ds). diverge d0 d"
    and aps: "apart (dest_paths pr ds)" by simp_all
  show ?case
  proof (cases "mkdir_parents d0 fs")
    case (Inl e0)
    with Cons.prems(4) bs d0_def have "fs' = fs" by simp
    hence "(\<forall>d\<in>set (take 0 (dest_paths pr (bs # ds))). is_dir fs' d)
         \<and> (\<forall>d\<in>set (drop 0 (dest_paths pr (bs # ds))). lookup fs' d = lookup fs d)" by simp
    thus ?thesis by blast
  next
    case (Inr fs1)
    obtain e1 fs2 where ct: "copytree (below pr src) d0 fs1 = (e1, fs2)"
      by (cases "copytree (below pr src) d0 fs1")
    note st = dest_step[OF Cons.prems(1) dv0 Inr ct]
    have w0: "is_dir fs2 d0" using st(2) by (simp add: is_dir_def)
    have same: "\<forall>d\<in>set (dest_paths pr ds). lookup fs2 d = lookup fs d"
      using st(3) ap0 by blast
    show ?thesis
    proof (cases e1)
      case (Some e0)
      with Cons.prems(4) bs d0_def Inr ct have "fs' = fs2" by simp
      with w0 same dps
      have "(\<forall>d\<in>set (take 1 (dest_paths pr (bs # ds))). is_dir fs' d)
         \<and> (\<forall>d\<in>set (drop 1 (dest_paths pr (bs # ds))). lookup fs' d = lookup fs d)" by simp
      moreover have "1 \<le> length (dest_paths pr (bs # ds))" by (simp add: dps)
      ultimately show ?thesis by blast
    next
      case None
      with Cons.prems(4) bs d0_def Inr ct have r: "copy_dests pr src ds fs2 = (e, fs')" by simp
      have s2: "lookup fs2 (below pr src) = Some (Dir sc)"
        using st(3)[OF dv0] Cons.prems(1) by simp
      from Cons.IH[OF s2 dvs aps r] obtain m where m: "m \<le> length (dest_paths pr ds)"
        and w: "\<forall>d\<in>set (take m (dest_paths pr ds)). is_dir fs' d"
        and u: "\<forall>d\<in>set (drop m (dest_paths pr ds)). lookup fs' d = lookup fs2 d" by blast
      from copy_dests_spec[OF s2 dvs aps r]
      have F: "\<And>q. (\<forall>d\<in>set (dest_paths pr ds). diverge d q) \<Longrightarrow> lookup fs' q = lookup fs2 q"
        by blast
      have "lookup fs' d0 = lookup fs2 d0"
        using F ap0 by (simp add: diverge_sym)
      with w0 have w0': "is_dir fs' d0" by (simp add: is_dir_def)
      have u': "\<forall>d\<in>set (drop m (dest_paths pr ds)). lookup fs' d = lookup fs d"
        using u same in_set_dropD by fastforce
      from w0' w u' dps
      have "(\<forall>d\<in>set (take (Suc m) (dest_paths pr (bs # ds))). is_dir fs' d)
         \<and> (\<forall>d\<in>set (drop (Suc m) (dest_paths pr (bs # ds))). lookup fs' d = lookup fs d)" by simp
      moreover from m have "Suc m \<le> length (dest_paths pr (bs # ds))" by (simp add: dps)
      ultimately show ?thesis by blast
    qed
  qed
qed

lemma copy_tasks_prefix:
  "\<forall>d\<in>set (all_dests pr ts). diverge d [t] \<Longrightarrow>
   apart (all_dests pr ts) \<Longrightarrow>
   copy_tasks pr (joinpath pr t) ts fs = (e, fs') \<Longrightarrow>
     \<exists>m\<le>length (all_dests pr ts).
        (\<forall>d\<in>set (take m (all_dests pr ts)). is_dir fs' d)
      \<and> (\<forall>d\<in>set (drop m (all_dests pr ts)). lookup fs' d = lookup fs d)"
proof (induction ts arbitrary: fs)
  case Nil
  then show ?case by (simp add: all_dests_def)
next
  case (Cons kd ts)
  obtain k ds where kd: "kd = (k, ds)" by (cases kd)
  let ?xs = "dest_paths pr ds" and ?ys = "all_dests pr ts"
  have ad: "all_dests pr (kd # ts) = ?xs @ ?ys"
    by (simp add: kd all_dests_Cons)
  from Cons.prems(1) ad have dv0: "\<forall>d\<in>set ?xs. diverge d [t]"
    and dvs: "\<forall>d\<in>set ?ys. diverge d [t]" by simp_all
  from Cons.prems(2) ad have ap0: "apart ?xs" and aps: "apart ?ys"
    and cross: "\<forall>x\<in>set ?xs. \<forall>y\<in>set ?ys. diverge x y"
    by (simp_all add: apart_append)
  show ?case
  proof (cases "is_dir fs [t, k]")
    case False
    with Cons.prems(3) kd have "fs' = fs" by simp
    hence "(\<forall>d\<in>set (take 0 (all_dests pr (kd # ts))). is_dir fs' d)
         \<and> (\<forall>d\<in>set (drop 0 (all_dests pr (kd # ts))). lookup fs' d = lookup fs d)" by simp
    thus ?thesis by blast
  next
    case True
    define sc where "sc = subdir fs [t, k]"
    have src: "lookup fs (below pr (joinpath (joinpath pr t) k)) = Some (Dir sc)"
      using subdir_is_dir[OF True] by (simp add: sc_def)
    have dvk: "\<forall>d\<in>set ?xs. diverge d (below pr (joinpath (joinpath pr t) k))"
      using dv0 diverge_append[of _ "[t]" "[k]"] by simp
    obtain e1 fs1 where cd: "copy_dests pr (joinpath (joinpath pr t) k) ds fs = (e1, fs1)"
      by (cases "copy_dests pr (joinpath (joinpath pr t) k) ds fs")
    from copy_dests_spec[OF src dvk ap0 cd]
    have F1: "\<And>q. (\<forall>d\<in>set ?xs. diverge d q) \<Longrightarrow> lookup fs1 q = lookup fs q"
      and S1: "e1 = None \<longrightarrow> (\<forall>d\<in>set ?xs. copied sc fs fs1 d)"
      by blast+
    have rest_same: "\<forall>d\<in>set ?ys. lookup fs1 d = lookup fs d"
      using F1 cross by blast
    show ?thesis
    proof (cases e1)
      case (Some e0)
      with Cons.prems(3) kd True cd have r: "fs' = fs1" by simp
      from copy_dests_prefix[OF src dvk ap0 cd] obtain m where m: "m \<le> length ?xs"
        and w: "\<forall>d\<in>set (take m ?xs). is_dir fs1 d"
        and u: "\<forall>d\<in>set (drop m ?xs). lookup fs1 d = lookup fs d" by blast
      from m w u rest_same r ad
      have "(\<forall>d\<in>set (take m (all_dests pr (kd # ts))). is_dir fs' d)
         \<and> (\<forall>d\<in>set (drop m (all_dests pr (kd # ts))). lookup fs' d = lookup fs d)" by auto
      moreover from m have "m \<le> length (all_dests pr (kd # ts))" by (simp add: ad)
      ultimately show ?thesis by blast
    next
      case None
      with Cons.prems(3) kd True cd have r: "copy_tasks pr (joinpath pr t) ts fs1 = (e, fs')" by simp
      from Cons.IH[OF dvs aps r] obtain m where m: "m \<le> length ?ys"
        and w: "\<forall>d\<in>set (take m ?ys). is_dir fs' d"
        and u: "\<forall>d\<in>set (drop m ?ys). lookup fs' d = lookup fs1 d" by blast
      from copy_tasks_spec[OF dvs aps r]
      have F2: "\<And>q. (\<forall>d\<in>set ?ys. diverge d q) \<Longrightarrow> lookup fs' q = lookup fs1 q"
        by blast
      have head_kept: "\<forall>d\<in>set ?xs. lookup fs' d = lookup fs1 d"
        using F2 cross by (metis diverge_sym)
      have wh: "\<forall>d\<in>set ?xs. is_dir fs' d"
        using S1 None head_kept by (simp add: copied_def is_dir_def)
      have u': "\<forall>d\<in>set (drop m ?ys). lookup fs' d = lookup fs d"
        using u rest_same in_set_dropD by fastforce
      from wh w u' ad
      have "(\<forall>d\<in>set (take (length ?xs + m) (all_dests pr (kd # ts))). is_dir fs' d)
         \<and> (\<forall>d\<in>set (drop (length ?xs + m) (all_dests pr (kd # ts))). lookup fs' d = lookup fs d)"
        by auto
      moreover from m have "length ?xs + m \<le> length (all_dests pr (kd # ts))" by (simp add: ad)
      ultimately show ?thesis by blast
    qed
  qed
qed

lemma run_prefix:
  assumes r: "run file clone fs = (e, fs')"
  shows "\<exists>m\<le>length (all_dests (project_root file) (tasks (project_root file))).
           (\<forall>d\<in>set (take m (all_dests (project_root file) (tasks (project_root file)))). is_dir fs' d)
         \<and> (\<forall>d\<in>set (drop m (all_dests (project_root file) (tasks (project_root file)))).
               lookup fs' d = lookup fs d)"
proof -
  let ?pr = "project_root file"
  let ?all = "all_dests ?pr (tasks ?pr)"
  obtain e1 fs1 where f1: "fetch file clone fs = (e1, fs1)" by (cases "fetch file clone fs")
  have same: "\<forall>d\<in>set ?all. lookup fs1 d = lookup fs d"
    using dest_head fetch_frame[OF f1] by metis
  show ?thesis
  proof (cases e1)
    case (Some e0)
    with f1 r have "fs' = fs1" by (simp add: run_def)
    with same have "(\<forall>d\<in>set (take 0 ?all). is_dir fs' d)
         \<and> (\<forall>d\<in>set (drop 0 ?all). lookup fs' d = lookup fs d)" by simp
    thus ?thesis by blast
  next
    case None
    with f1 have f: "fetch file clone fs = (None, fs1)" by simp
    from run_copy[OF f] r
    have c: "copy_tasks ?pr (joinpath ?pr ''tmp_hf_repo'') (tasks ?pr) fs1 = (e, fs')" by simp
    from copy_tasks_prefix[OF tasks_off_tmp tasks_apart c] obtain m where m: "m \<le> length ?all"
      and w: "\<forall>d\<in>set (take m ?all). is_dir fs' d"
      and u: "\<forall>d\<in>set (drop m ?all). lookup fs' d = lookup fs1 d" by blast
    have "\<forall>d\<in>set (drop m ?all). lookup fs' d = lookup fs d"
      using u same in_set_dropD by fastforce
    with m w show ?thesis by blast
  qed
qed

lemma abort_point:
  assumes "run file clone fs = (Some FileNotFoundError, fs')"
  shows "\<exists>n<length (tasks (project_root file)).
           \<not> is_dir (snd (clone [])) [fst (tasks (project_root file) ! n)]
         \<and> (\<forall>i<n. is_dir (snd (clone [])) [fst (tasks (project_root file) ! i)])
         \<and> (\<forall>(k, ds)\<in>set (take n (tasks (project_root file))).
              \<forall>d\<in>set (dest_paths (project_root file) ds).
                lookup fs' d = Some (Dir (snd (copy_entries (subdir (snd (clone [])) [k]) (subdir fs d)))))
         \<and> (\<forall>d\<in>set (all_dests (project_root file) (drop n (tasks (project_root file)))).
              lookup fs' d = lookup fs d)"
proof -
  let ?pr = "project_root file" and ?r = "snd (clone [])"
  let ?ts = "tasks ?pr"
  obtain e1 fs1 where f1: "fetch file clone fs = (e1, fs1)" by (cases "fetch file clone fs")
  with assms have f: "fetch file clone fs = (None, fs1)"
    by (cases e1) (auto simp: run_def dest: fetch_error)
  from run_copy[OF f] assms
  have c: "copy_tasks ?pr (joinpath ?pr ''tmp_hf_repo'') ?ts fs1 = (Some FileNotFoundError, fs')" by simp
  have tmp: "subdir fs1 [''tmp_hf_repo''] = ?r"
    using fetch_ok[OF f] by (simp add: subdir_def)
  have key_dir: "\<And>k. is_dir fs1 [''tmp_hf_repo'', k] = is_dir ?r [k]"
    using is_dir_Cons_subdir[of "[_]" fs1 "''tmp_hf_repo''"] tmp by simp
  have key_sub: "\<And>k. subdir fs1 [''tmp_hf_repo'', k] = subdir ?r [k]"
    using lookup_Cons_subdir[of fs1 "''tmp_hf_repo''" "[_]"] tmp by simp
  let ?P = "\<lambda>(k, ds). is_dir ?r [k]"
  have P: "(\<lambda>(k, ds). is_dir fs1 [''tmp_hf_repo'', k]) = ?P" by (simp add: key_dir)
  note sp = copy_tasks_spec[OF tasks_off_tmp tasks_apart c, unfolded P key_sub]
  from sp
  have N1: "dropWhile ?P ?ts \<noteq> []"
    and N2: "\<forall>(k, ds)\<in>set (takeWhile ?P ?ts). \<forall>d\<in>set (dest_paths ?pr ds).
               copied (subdir ?r [k]) fs1 fs' d"
    and N3: "\<forall>d\<in>set (all_dests ?pr (dropWhile ?P ?ts)). lookup fs' d = lookup fs1 d"
    by blast+
  define n where "n = length (takeWhile ?P ?ts)"
  have tw: "takeWhile ?P ?ts = take n ?ts"
    unfolding n_def by (rule takeWhile_eq_take)
  have dw: "dropWhile ?P ?ts = drop n ?ts"
    unfolding n_def by (rule dropWhile_eq_drop)
  from N1 dw have n: "n < length ?ts" by simp
  have notP: "\<not> ?P (?ts ! n)"
    using n unfolding n_def by (rule nth_length_takeWhile)
  have allP: "\<forall>i<n. ?P (?ts ! i)"
  proof (intro allI impI)
    fix i assume i: "i < n"
    hence "takeWhile ?P ?ts ! i = ?ts ! i" unfolding n_def by (rule takeWhile_nth)
    moreover from i have "takeWhile ?P ?ts ! i \<in> set (takeWhile ?P ?ts)" by (simp add: n_def)
    ultimately show "?P (?ts ! i)" using set_takeWhileD by metis
  qed
  have same1: "\<And>d. d \<in> set (all_dests ?pr ?ts) \<Longrightarrow> lookup fs1 d = lookup fs d"
    using dest_head fetch_frame[OF f] by metis
  have W: "\<forall>(k, ds)\<in>set (take n ?ts). \<forall>d\<in>set (dest_paths ?pr ds).
             lookup fs' d = Some (Dir (snd (copy_entries (subdir ?r [k]) (subdir fs d))))"
  proof (clarify)
    fix k ds d
    assume m: "(k, ds) \<in> set (take n ?ts)" and d: "d \<in> set (dest_paths ?pr ds)"
    from m have "(k, ds) \<in> set ?ts" by (rule in_set_takeD)
    from all_dests_mem[OF this d] have "lookup fs1 d = lookup fs d" by (rule same1)
    hence "subdir fs1 d = subdir fs d" by (simp add: subdir_def)
    moreover from N2 m d tw have "copied (subdir ?r [k]) fs1 fs' d" by auto
    ultimately show "lookup fs' d = Some (Dir (snd (copy_entries (subdir ?r [k]) (subdir fs d))))"
      by (simp add: copied_def)
  qed
  have U: "\<forall>d\<in>set (all_dests ?pr (drop n ?ts)). lookup fs' d = lookup fs d"
  proof
    fix d assume d: "d \<in> set (all_dests ?pr (drop n ?ts))"
    hence "d \<in> set (all_dests ?pr ?ts)"
      using set_drop_subset[of n ?ts] by (auto simp: all_dests_def)
    with N3 d dw same1 show "lookup fs' d = lookup fs d" by simp
  qed
  from notP allP have "\<not> is_dir ?r [fst (?ts ! n)]" and "\<forall>i<n. is_dir ?r [fst (?ts ! i)]"
    by (auto simp: case_prod_beta)
  with n W U show ?thesis by blast
qed

section \<open>The mapping table\<close>


section \<open>The path resolver\<close>

text \<open>
  C6, as stated: the project root is an absolute path. It is not when the interpreter
  hands the script a relative \<^verbatim>\<open>__file__\<close>, as for \<^verbatim>\<open>python setup.py\<close> before
  Python 3.9 or \<^verbatim>\<open>runpy.run_path("setup.py")\<close>: the parent of \<^verbatim>\<open>setup.py\<close> is the
  relative path \<^verbatim>\<open>.\<close>.
\<close>

theorem project_root_relative:
  "\<not> is_absolute (project_root \<lparr>root = False, parts = [''setup.py'']\<rparr>)"
  by (simp add: is_absolute_def project_root_def parent_def)

text \<open>
  C6, amended: the project root is the parent of the script's path, that is the
  script's path without its last component and with the same anchor, so it is absolute
  exactly when the script's path is; the clone directory is the project root joined
  with the fixed name \<open>tmp_hf_repo\<close>, its parent is the project root, and it is
  absolute exactly when the script's path is. Both are functions of the script's path
  alone.
\<close>

theorem path_resolver:
  "project_root file = parent file
   \<and> parts (project_root file) = butlast (parts file)
   \<and> root (project_root file) = root file
   \<and> is_absolute (project_root file) = is_absolute file
   \<and> tmp_repo file = joinpath (project_root file) ''tmp_hf_repo''
   \<and> parent (tmp_repo file) = project_root file
   \<and> parts (tmp_repo file) = parts (project_root file) @ [''tmp_hf_repo'']
   \<and> is_absolute (tmp_repo file) = is_absolute file"
  by (simp add: is_absolute_def project_root_def tmp_repo_def parent_def joinpath_def)

section \<open>The fetcher\<close>

text \<open>
  C9. When the clone path is a regular file, \<^verbatim>\<open>shutil.rmtree\<close> raises
  \<open>NotADirectoryError\<close>, which is neither the clone's error nor the missing-folder
  error; nothing is cloned or copied, the file system is as it was.
\<close>

theorem stale_file_not_directory:
  assumes "lookup fs (tmp_dir file) = Some (File c)"
  shows "run file clone fs = (Some NotADirectoryError, fs)
         \<and> NotADirectoryError \<noteq> CloneError \<and> NotADirectoryError \<noteq> FileNotFoundError"
  using assms
  by (simp add: run_def fetch_def tmp_dir_def tmp_repo_def exists_def split: option.splits node.splits)

theorem stale_file_not_directory_witness:
  "lookup [(''tmp_hf_repo'', File ''x'')] (tmp_dir \<lparr>root = True, parts = [''repo'', ''setup.py'']\<rparr>)
     = Some (File ''x'')
   \<and> run \<lparr>root = True, parts = [''repo'', ''setup.py'']\<rparr> (\<lambda>old. (True, [(''README'', File ''r'')]))
        [(''tmp_hf_repo'', File ''x'')]
     = (Some NotADirectoryError, [(''tmp_hf_repo'', File ''x'')])"
  using stale_file_not_directory
    [of "[(''tmp_hf_repo'', File ''x'')]" "\<lparr>root = True, parts = [''repo'', ''setup.py'']\<rparr>"
        "''x''" "\<lambda>old. (True, [(''README'', File ''r'')])"]
  by (simp add: tmp_dir_eq)

text \<open>
  C2, as stated: whenever the clone path exists before the run, the fetcher deletes it
  and clones. \<^verbatim>\<open>tmp_repo.exists()\<close> is also true of a regular file, and then
  \<^verbatim>\<open>shutil.rmtree\<close> raises: the file is still there and nothing is cloned.
\<close>

theorem fetch_keeps_file:
  "exists example_stale (tmp_dir example_file)
   \<and> fetch example_file example_clone example_stale = (Some NotADirectoryError, example_stale)"
  by (simp add: exists_def tmp_dir_eq fetch_def tmp_dir_def [symmetric] example_stale_def)

text \<open>
  C2, amended. When the clone path exists as a directory before the run, it is removed
  with all it holds and the repository is cloned into a fresh, empty directory:
  afterwards every path below the clone directory is exactly what a clone into an empty
  directory leaves there, whatever the old directory held.
\<close>

theorem fetch_replaces_clone:
  assumes "is_dir fs (tmp_dir file)"
  shows "\<exists>fs1. fetch file clone fs = (if fst (clone []) then None else Some CloneError, fs1)
           \<and> (\<forall>p. lookup fs1 (tmp_dir file @ p) = lookup (snd (clone [])) p)"
  using assms by (rule fetch_existing)

theorem fetch_replaces_clone_witness:
  "is_dir [(''tmp_hf_repo'', Dir [(''stale'', File ''s'')])]
     (tmp_dir \<lparr>root = True, parts = [''repo'', ''setup.py'']\<rparr>)
   \<and> (\<exists>fs1. fetch \<lparr>root = True, parts = [''repo'', ''setup.py'']\<rparr>
               (\<lambda>old. (True, old @ [(''README'', File ''r'')]))
               [(''tmp_hf_repo'', Dir [(''stale'', File ''s'')])] = (None, fs1)
        \<and> lookup fs1 [''tmp_hf_repo'', ''stale''] = None
        \<and> lookup fs1 [''tmp_hf_repo'', ''README''] = Some (File ''r''))"
proof -
  have h: "is_dir [(''tmp_hf_repo'', Dir [(''stale'', File ''s'')])]
             (tmp_dir \<lparr>root = True, parts = [''repo'', ''setup.py'']\<rparr>)"
    by (simp add: is_dir_def tmp_dir_eq)
  from fetch_replaces_clone [OF h, where clone = "\<lambda>old. (True, old @ [(''README'', File ''r'')])"]
  obtain fs1 where
    f: "fetch \<lparr>root = True, parts = [''repo'', ''setup.py'']\<rparr>
          (\<lambda>old. (True, old @ [(''README'', File ''r'')]))
          [(''tmp_hf_repo'', Dir [(''stale'', File ''s'')])] = (None, fs1)"
    and l: "\<forall>p. lookup fs1 (tmp_dir \<lparr>root = True, parts = [''repo'', ''setup.py'']\<rparr> @ p)
              = lookup [(''README'', File ''r'')] p"
    by auto
  from l [rule_format, of "[''stale'']"] l [rule_format, of "[''README'']"]
  have "lookup fs1 [''tmp_hf_repo'', ''stale''] = None"
    and "lookup fs1 [''tmp_hf_repo'', ''README''] = Some (File ''r'')"
    by (simp_all add: tmp_dir_eq)
  with h f show ?thesis by blast
qed

section \<open>The copy executor\<close>

text \<open>
  C8. The copy loop never writes below the clone directory: whatever the loop does,
  and however it ends, every path below the clone directory is afterwards what the
  clone step left there, and the clone directory is still in place with the cloned
  content.
\<close>

theorem clone_untouched:
  assumes "fetch file clone fs = (None, fs1)"
  shows "\<exists>e fs'. run file clone fs = (e, fs')
           \<and> (\<forall>p. lookup fs' (tmp_dir file @ p) = lookup fs1 (tmp_dir file @ p))
           \<and> lookup fs' (tmp_dir file) = Some (Dir (snd (clone [])))"
  using assms by (rule run_keeps_clone)

theorem clone_untouched_witness:
  "fetch \<lparr>root = True, parts = [''repo'', ''setup.py'']\<rparr> (\<lambda>old. (True, [(''data_vocab'', Dir [(''f.txt'', File ''a'')])])) [] = (None, [(''tmp_hf_repo'', Dir [(''data_vocab'', Dir [(''f.txt'', File ''a'')])])])
   \<and> (\<exists>e fs'. run \<lparr>root = True, parts = [''repo'', ''setup.py'']\<rparr> (\<lambda>old. (True, [(''data_vocab'', Dir [(''f.txt'', File ''a'')])])) [] = (e, fs')
        \<and> lookup fs' [''tmp_hf_repo'', ''data_vocab'', ''f.txt''] = Some (File ''a''))"
proof -
  have h: "fetch \<lparr>root = True, parts = [''repo'', ''setup.py'']\<rparr> (\<lambda>old. (True, [(''data_vocab'', Dir [(''f.txt'', File ''a'')])])) [] = (None, [(''tmp_hf_repo'', Dir [(''data_vocab'', Dir [(''f.txt'', File ''a'')])])])"
    by (simp add: fetch_def exists_def Repository_def subdir_def tmp_repo_def)
  from clone_untouched [OF h] obtain e fs' where
    r: "run \<lparr>root = True, parts = [''repo'', ''setup.py'']\<rparr> (\<lambda>old. (True, [(''data_vocab'', Dir [(''f.txt'', File ''a'')])])) [] = (e, fs')"
    and l: "\<forall>p. lookup fs' (tmp_dir \<lparr>root = True, parts = [''repo'', ''setup.py'']\<rparr> @ p) = lookup [(''tmp_hf_repo'', Dir [(''data_vocab'', Dir [(''f.txt'', File ''a'')])])] (tmp_dir \<lparr>root = True, parts = [''repo'', ''setup.py'']\<rparr> @ p)"
    by blast
  from l [rule_format, of "[''data_vocab'', ''f.txt'']"]
  have "lookup fs' [''tmp_hf_repo'', ''data_vocab'', ''f.txt''] = Some (File ''a'')"
    by (simp add: tmp_dir_eq)
  with h r show ?thesis by blast
qed

text \<open>
  C1. When the loop reaches an entry of the table (the entries before it were copied
  without an error) and the entry's folder is not a directory of the clone, the run
  ends with \<open>FileNotFoundError\<close> in the state it had on reaching the entry, and every
  destination of this entry and of the later entries is as it was before the run:
  not created, not modified.
\<close>

theorem missing_source_aborts:
  assumes t: "tasks (project_root file) = pre @ (remote_folder, destinations) # post"
    and f: "fetch file clone fs = (None, fs1)"
    and p: "copy_tasks (project_root file) (tmp_repo file) pre fs1 = (None, fs2)"
    and m: "\<not> is_dir fs2 (tmp_dir file @ [remote_folder])"
  shows "run file clone fs = (Some FileNotFoundError, fs2)
       \<and> (\<forall>d\<in>set (all_dests (project_root file) ((remote_folder, destinations) # post)).
            lookup fs2 d = lookup fs d)"
proof -
  let ?pr = "project_root file"
  have tm: "tmp_repo file = joinpath ?pr ''tmp_hf_repo''" by (simp add: tmp_repo_def)
  have m': "\<not> is_dir fs2 (below ?pr (joinpath (tmp_repo file) remote_folder))"
    using m by (simp add: tmp_dir_eq tm)
  have "run file clone fs = copy_tasks ?pr (tmp_repo file) (pre @ (remote_folder, destinations) # post) fs1"
    using f t by (simp add: run_def)
  hence r: "run file clone fs = (Some FileNotFoundError, fs2)"
    using p m' by (simp add: copy_tasks_append)
  have ad: "all_dests ?pr (tasks ?pr) = all_dests ?pr pre @ all_dests ?pr ((remote_folder, destinations) # post)"
    by (simp add: t all_dests_append)
  from tasks_apart[of ?pr] ad
  have ap: "apart (all_dests ?pr pre)"
    and cross: "\<forall>x\<in>set (all_dests ?pr pre). \<forall>y\<in>set (all_dests ?pr ((remote_folder, destinations) # post)). diverge x y"
    by (simp_all add: apart_append)
  from tasks_off_tmp[of ?pr] ad have off: "\<forall>d\<in>set (all_dests ?pr pre). diverge d [''tmp_hf_repo'']"
    by simp
  from copy_tasks_spec[OF off ap p[unfolded tm]]
  have F: "\<And>q. (\<forall>d\<in>set (all_dests ?pr pre). diverge d q) \<Longrightarrow> lookup fs2 q = lookup fs1 q"
    by blast
  have "\<forall>d\<in>set (all_dests ?pr ((remote_folder, destinations) # post)). lookup fs2 d = lookup fs d"
  proof
    fix d assume d: "d \<in> set (all_dests ?pr ((remote_folder, destinations) # post))"
    with cross have "lookup fs2 d = lookup fs1 d" by (intro F) blast
    moreover from d ad have "d \<in> set (all_dests ?pr (tasks ?pr))" by simp
    from dest_head[OF this] fetch_frame[OF f] have "lookup fs1 d = lookup fs d" by auto
    ultimately show "lookup fs2 d = lookup fs d" by simp
  qed
  with r show ?thesis by blast
qed

theorem missing_source_aborts_witness:
  "tasks (project_root \<lparr>root = True, parts = [''repo'', ''setup.py'']\<rparr>) =
     [hd (tasks (project_root \<lparr>root = True, parts = [''repo'', ''setup.py'']\<rparr>))]
     @ (''models_vocab'', snd (tasks (project_root \<lparr>root = True, parts = [''repo'', ''setup.py'']\<rparr>) ! 1)) # drop 2 (tasks (project_root \<lparr>root = True, parts = [''repo'', ''setup.py'']\<rparr>))
   \<and> fetch \<lparr>root = True, parts = [''repo'', ''setup.py'']\<rparr> (\<lambda>old. (True, [(''data_vocab'', Dir [(''f.txt'', File ''a'')])])) [] = (None, [(''tmp_hf_repo'', Dir [(''data_vocab'', Dir [(''f.txt'', File ''a'')])])])
   \<and> copy_tasks (project_root \<lparr>root = True, parts = [''repo'', ''setup.py'']\<rparr>) (tmp_repo \<lparr>root = True, parts = [''repo'', ''setup.py'']\<rparr>) [hd (tasks (project_root \<lparr>root = True, parts = [''repo'', ''setup.py'']\<rparr>))] [(''tmp_hf_repo'', Dir [(''data_vocab'', Dir [(''f.txt'', File ''a'')])])] = (None, [(''tmp_hf_repo'', Dir [(''data_vocab'', Dir [(''f.txt'', File ''a'')])]),
         (''Evaluation'', Dir [(''try1'', Dir [(''data'', Dir [(''f.txt'', File ''a'')])])]),
         (''ML'', Dir [(''try1'', Dir [(''data'', Dir [(''f.txt'', File ''a'')])])])])
   \<and> \<not> is_dir [(''tmp_hf_repo'', Dir [(''data_vocab'', Dir [(''f.txt'', File ''a'')])]),
         (''Evaluation'', Dir [(''try1'', Dir [(''data'', Dir [(''f.txt'', File ''a'')])])]),
         (''ML'', Dir [(''try1'', Dir [(''data'', Dir [(''f.txt'', File ''a'')])])])] (tmp_dir \<lparr>root = True, parts = [''repo'', ''setup.py'']\<rparr> @ [''models_vocab''])
   \<and> run \<lparr>root = True, parts = [''repo'', ''setup.py'']\<rparr> (\<lambda>old. (True, [(''data_vocab'', Dir [(''f.txt'', File ''a'')])])) [] = (Some FileNotFoundError, [(''tmp_hf_repo'', Dir [(''data_vocab'', Dir [(''f.txt'', File ''a'')])]),
         (''Evaluation'', Dir [(''try1'', Dir [(''data'', Dir [(''f.txt'', File ''a'')])])]),
         (''ML'', Dir [(''try1'', Dir [(''data'', Dir [(''f.txt'', File ''a'')])])])])
   \<and> lookup [(''tmp_hf_repo'', Dir [(''data_vocab'', Dir [(''f.txt'', File ''a'')])]),
         (''Evaluation'', Dir [(''try1'', Dir [(''data'', Dir [(''f.txt'', File ''a'')])])]),
         (''ML'', Dir [(''try1'', Dir [(''data'', Dir [(''f.txt'', File ''a'')])])])] [''Evaluation'', ''try1'', ''models''] = None
   \<and> lookup [(''tmp_hf_repo'', Dir [(''data_vocab'', Dir [(''f.txt'', File ''a'')])]),
         (''Evaluation'', Dir [(''try1'', Dir [(''data'', Dir [(''f.txt'', File ''a'')])])]),
         (''ML'', Dir [(''try1'', Dir [(''data'', Dir [(''f.txt'', File ''a'')])])])] [''ML'', ''try2'', ''data''] = None"
proof -
  let ?fs2 = "[(''tmp_hf_repo'', Dir [(''data_vocab'', Dir [(''f.txt'', File ''a'')])]),
         (''Evaluation'', Dir [(''try1'', Dir [(''data'', Dir [(''f.txt'', File ''a'')])])]),
         (''ML'', Dir [(''try1'', Dir [(''data'', Dir [(''f.txt'', File ''a'')])])])]"
  have t: "tasks (project_root \<lparr>root = True, parts = [''repo'', ''setup.py'']\<rparr>) =
     [hd (tasks (project_root \<lparr>root = True, parts = [''repo'', ''setup.py'']\<rparr>))]
     @ (''models_vocab'', snd (tasks (project_root \<lparr>root = True, parts = [''repo'', ''setup.py'']\<rparr>) ! 1)) # drop 2 (tasks (project_root \<lparr>root = True, parts = [''repo'', ''setup.py'']\<rparr>))"
    by (simp add: tasks_def)
  have f: "fetch \<lparr>root = True, parts = [''repo'', ''setup.py'']\<rparr> (\<lambda>old. (True, [(''data_vocab'', Dir [(''f.txt'', File ''a'')])])) [] = (None, [(''tmp_hf_repo'', Dir [(''data_vocab'', Dir [(''f.txt'', File ''a'')])])])"
    by (simp add: fetch_def exists_def Repository_def subdir_def tmp_repo_def)
  have p: "copy_tasks (project_root \<lparr>root = True, parts = [''repo'', ''setup.py'']\<rparr>) (tmp_repo \<lparr>root = True, parts = [''repo'', ''setup.py'']\<rparr>) [hd (tasks (project_root \<lparr>root = True, parts = [''repo'', ''setup.py'']\<rparr>))] [(''tmp_hf_repo'', Dir [(''data_vocab'', Dir [(''f.txt'', File ''a'')])])] = (None, ?fs2)"
    by (simp add: tasks_def tmp_repo_def is_dir_def copytree_def subdir_def copy2.simps)
  have m: "\<not> is_dir ?fs2 (tmp_dir \<lparr>root = True, parts = [''repo'', ''setup.py'']\<rparr> @ [''models_vocab''])"
    by (simp add: tmp_dir_eq is_dir_def)
  from missing_source_aborts [OF t f p m]
  have "run \<lparr>root = True, parts = [''repo'', ''setup.py'']\<rparr> (\<lambda>old. (True, [(''data_vocab'', Dir [(''f.txt'', File ''a'')])])) [] = (Some FileNotFoundError, ?fs2)" by blast
  moreover have "lookup ?fs2 [''Evaluation'', ''try1'', ''models''] = None"
    and "lookup ?fs2 [''ML'', ''try2'', ''data''] = None" by simp_all
  ultimately show ?thesis using t f p m by blast
qed

text \<open>
  C10. The loops take the entries of the table, and the destinations of each entry, in
  their listed order. Whatever the outcome of the run, the destinations that exist as
  directories after it form an initial part of the list of all destinations in table
  order (\<open>all_dests\<close>), and every destination after that part is as before the run.
  When the run ends with \<open>FileNotFoundError\<close>, there is a first entry \<open>n\<close> of the
  table whose folder is not a directory of the clone; every destination of the entries
  before it holds the copy of its folder, merged into what the destination held before
  the run, and every destination of entry \<open>n\<close> and of the later entries is as before
  the run. Which destinations are written is thus fixed by the position of the missing
  folder.
\<close>

theorem copy_order:
  assumes "run file clone fs = (e, fs')"
  shows "(\<exists>m\<le>length (all_dests (project_root file) (tasks (project_root file))).
            (\<forall>d\<in>set (take m (all_dests (project_root file) (tasks (project_root file)))).
               is_dir fs' d)
          \<and> (\<forall>d\<in>set (drop m (all_dests (project_root file) (tasks (project_root file)))).
               lookup fs' d = lookup fs d))
       \<and> (e = Some FileNotFoundError \<longrightarrow>
           (\<exists>n<length (tasks (project_root file)).
               \<not> is_dir (snd (clone [])) [fst (tasks (project_root file) ! n)]
             \<and> (\<forall>i<n. is_dir (snd (clone [])) [fst (tasks (project_root file) ! i)])
             \<and> (\<forall>(k, ds)\<in>set (take n (tasks (project_root file))).
                  \<forall>d\<in>set (dest_paths (project_root file) ds).
                    lookup fs' d
                      = Some (Dir (snd (copy_entries (subdir (snd (clone [])) [k]) (subdir fs d)))))
             \<and> (\<forall>d\<in>set (all_dests (project_root file) (drop n (tasks (project_root file)))).
                  lookup fs' d = lookup fs d)))"
proof (intro conjI impI)
  show "\<exists>m\<le>length (all_dests (project_root file) (tasks (project_root file))).
            (\<forall>d\<in>set (take m (all_dests (project_root file) (tasks (project_root file)))).
               is_dir fs' d)
          \<and> (\<forall>d\<in>set (drop m (all_dests (project_root file) (tasks (project_root file)))).
               lookup fs' d = lookup fs d)"
    using assms by (rule run_prefix)
next
  assume "e = Some FileNotFoundError"
  with assms have "run file clone fs = (Some FileNotFoundError, fs')" by simp
  thus "\<exists>n<length (tasks (project_root file)).
               \<not> is_dir (snd (clone [])) [fst (tasks (project_root file) ! n)]
             \<and> (\<forall>i<n. is_dir (snd (clone [])) [fst (tasks (project_root file) ! i)])
             \<and> (\<forall>(k, ds)\<in>set (take n (tasks (project_root file))).
                  \<forall>d\<in>set (dest_paths (project_root file) ds).
                    lookup fs' d
                      = Some (Dir (snd (copy_entries (subdir (snd (clone [])) [k]) (subdir fs d)))))
             \<and> (\<forall>d\<in>set (all_dests (project_root file) (drop n (tasks (project_root file)))).
                  lookup fs' d = lookup fs d)"
    by (rule abort_point)
qed

theorem copy_order_witness:
  "run \<lparr>root = True, parts = [''repo'', ''setup.py'']\<rparr> (\<lambda>old. (True, [(''data_vocab'', Dir [(''f.txt'', File ''a'')])])) [] = (Some FileNotFoundError, [(''tmp_hf_repo'', Dir [(''data_vocab'', Dir [(''f.txt'', File ''a'')])]),
         (''Evaluation'', Dir [(''try1'', Dir [(''data'', Dir [(''f.txt'', File ''a'')])])]),
         (''ML'', Dir [(''try1'', Dir [(''data'', Dir [(''f.txt'', File ''a'')])])])])
   \<and> lookup [(''tmp_hf_repo'', Dir [(''data_vocab'', Dir [(''f.txt'', File ''a'')])]),
         (''Evaluation'', Dir [(''try1'', Dir [(''data'', Dir [(''f.txt'', File ''a'')])])]),
         (''ML'', Dir [(''try1'', Dir [(''data'', Dir [(''f.txt'', File ''a'')])])])] [''Evaluation'', ''try1'', ''models''] = None
   \<and> lookup [(''tmp_hf_repo'', Dir [(''data_vocab'', Dir [(''f.txt'', File ''a'')])]),
         (''Evaluation'', Dir [(''try1'', Dir [(''data'', Dir [(''f.txt'', File ''a'')])])]),
         (''ML'', Dir [(''try1'', Dir [(''data'', Dir [(''f.txt'', File ''a'')])])])] [''Evaluation'', ''try2'', ''models''] = None"
proof -
  let ?ts = "tasks (project_root \<lparr>root = True, parts = [''repo'', ''setup.py'']\<rparr>)"
  have h: "run \<lparr>root = True, parts = [''repo'', ''setup.py'']\<rparr> (\<lambda>old. (True, [(''data_vocab'', Dir [(''f.txt'', File ''a'')])])) [] = (Some FileNotFoundError, [(''tmp_hf_repo'', Dir [(''data_vocab'', Dir [(''f.txt'', File ''a'')])]),
         (''Evaluation'', Dir [(''try1'', Dir [(''data'', Dir [(''f.txt'', File ''a'')])])]),
         (''ML'', Dir [(''try1'', Dir [(''data'', Dir [(''f.txt'', File ''a'')])])])])"
    by (simp add: run_def fetch_def exists_def Repository_def subdir_def tmp_repo_def
        tasks_def is_dir_def copytree_def copy2.simps)
  from copy_order [OF h] obtain n where n: "n < length ?ts"
    and first: "\<forall>i<n. is_dir (snd ((\<lambda>old. (True, [(''data_vocab'', Dir [(''f.txt'', File ''a'')])])) [])) [fst (?ts ! i)]"
    and rest: "\<forall>d\<in>set (all_dests (project_root \<lparr>root = True, parts = [''repo'', ''setup.py'']\<rparr>) (drop n ?ts)).
                lookup [(''tmp_hf_repo'', Dir [(''data_vocab'', Dir [(''f.txt'', File ''a'')])]),
         (''Evaluation'', Dir [(''try1'', Dir [(''data'', Dir [(''f.txt'', File ''a'')])])]),
         (''ML'', Dir [(''try1'', Dir [(''data'', Dir [(''f.txt'', File ''a'')])])])] d = lookup [] d"
    by blast
  have "\<not> is_dir (snd ((\<lambda>old. (True, [(''data_vocab'', Dir [(''f.txt'', File ''a'')])])) [])) [fst (?ts ! 1)]"
    by (simp add: tasks_def is_dir_def)
  with first have "n \<le> 1" by (meson not_le_imp_less)
  hence "set (drop 1 ?ts) \<subseteq> set (drop n ?ts)" by (rule set_drop_subset_set_drop)
  hence "set (all_dests (project_root \<lparr>root = True, parts = [''repo'', ''setup.py'']\<rparr>) (drop 1 ?ts))
          \<subseteq> set (all_dests (project_root \<lparr>root = True, parts = [''repo'', ''setup.py'']\<rparr>) (drop n ?ts))"
    by (auto simp: all_dests_def)
  moreover have "[''Evaluation'', ''try1'', ''models''] \<in> set (all_dests (project_root \<lparr>root = True, parts = [''repo'', ''setup.py'']\<rparr>) (drop 1 ?ts))"
    and "[''Evaluation'', ''try2'', ''models''] \<in> set (all_dests (project_root \<lparr>root = True, parts = [''repo'', ''setup.py'']\<rparr>) (drop 1 ?ts))"
    by (simp_all add: tasks_def all_dests_def dest_paths_def)
  ultimately have "lookup [(''tmp_hf_repo'', Dir [(''data_vocab'', Dir [(''f.txt'', File ''a'')])]),
         (''Evaluation'', Dir [(''try1'', Dir [(''data'', Dir [(''f.txt'', File ''a'')])])]),
         (''ML'', Dir [(''try1'', Dir [(''data'', Dir [(''f.txt'', File ''a'')])])])] [''Evaluation'', ''try1'', ''models''] = lookup [] [''Evaluation'', ''try1'', ''models'']"
    and "lookup [(''tmp_hf_repo'', Dir [(''data_vocab'', Dir [(''f.txt'', File ''a'')])]),
         (''Evaluation'', Dir [(''try1'', Dir [(''data'', Dir [(''f.txt'', File ''a'')])])]),
         (''ML'', Dir [(''try1'', Dir [(''data'', Dir [(''f.txt'', File ''a'')])])])] [''Evaluation'', ''try2'', ''models''] = lookup [] [''Evaluation'', ''try2'', ''models'']"
    using rest by blast+
  with h show ?thesis by simp
qed

section \<open>What the copy leaves in a destination\<close>

text \<open>
  C3, as stated: after a successful run every file of a source folder is in each of
  its destinations with the same bytes. It fails where the destination held a
  directory at the path of a source file: \<^verbatim>\<open>shutil.copy2\<close> then writes the file
  into that directory and the run still succeeds. Here the clone has
  \<^verbatim>\<open>data_vocab/f.txt\<close> and the destination \<^verbatim>\<open>Evaluation/try1/data\<close> held a directory
  \<^verbatim>\<open>f.txt\<close>, which is still a directory after the run.
\<close>

theorem copy_superset_counterexample:
  "fst (run example_file example_clone example_fs) = None
   \<and> lookup (snd (example_clone [])) [''data_vocab'', ''f.txt''] = Some (File ''a'')
   \<and> lookup (snd (run example_file example_clone example_fs))
        [''Evaluation'', ''try1'', ''data'', ''f.txt''] \<noteq> Some (File ''a'')"
  by (simp add: example_run) (simp add: example_clone_def)

text \<open>
  C3, amended: after a successful run, for every entry of the table and each of its
  destinations, the destination and all its ancestors are directories; every file of
  the cloned folder whose path was not a directory in the destination before the run
  is a file at that path with the same bytes; and every directory of the cloned folder,
  an empty one included, is a directory in the destination.
\<close>

theorem copy_superset:
  assumes r: "run file clone fs = (None, fs')"
    and dn: "distinct_names (snd (clone []))"
    and m: "(k, ds) \<in> set (tasks (project_root file))"
    and d: "d \<in> set (dest_paths (project_root file) ds)"
  shows "(\<forall>j. is_dir fs' (take j d))
       \<and> (\<forall>p c. lookup (snd (clone [])) (k # p) = Some (File c) \<longrightarrow> \<not> is_dir fs (d @ p)
             \<longrightarrow> lookup fs' (d @ p) = Some (File c))
       \<and> (\<forall>p x. lookup (snd (clone [])) (k # p) = Some (Dir x) \<longrightarrow> is_dir fs' (d @ p))"
proof -
  let ?sc = "subdir (snd (clone [])) [k]" and ?dc = "subdir fs d"
  note s = run_success[OF r m d]
  have dsc: "distinct_names ?sc" using dn by (rule distinct_names_subdir)
  have at: "\<And>p. lookup fs' (d @ p) = lookup (snd (copy_entries ?sc ?dc)) p"
    using s(2) by (rule lookup_at_dir)
  have "is_dir fs' d" using s(2) by (simp add: is_dir_def)
  have 1: "\<forall>j. is_dir fs' (take j d)"
  proof
    fix j from \<open>is_dir fs' d\<close> is_dir_prefix[of fs' "take j d" "drop j d"]
    show "is_dir fs' (take j d)" by simp
  qed
  have 2: "\<forall>p c. lookup (snd (clone [])) (k # p) = Some (File c) \<longrightarrow> \<not> is_dir fs (d @ p)
             \<longrightarrow> lookup fs' (d @ p) = Some (File c)"
  proof (intro allI impI)
    fix p c
    assume "lookup (snd (clone [])) (k # p) = Some (File c)" and nd: "\<not> is_dir fs (d @ p)"
    hence l: "lookup ?sc p = Some (File c)" using lookup_key[OF s(1)] by simp
    hence "p \<noteq> []" by auto
    with nd have "\<not> is_dir ?dc p" by (simp add: is_dir_below)
    from copied_file[OF dsc s(3) l this] at show "lookup fs' (d @ p) = Some (File c)" by simp
  qed
  have 3: "\<forall>p x. lookup (snd (clone [])) (k # p) = Some (Dir x) \<longrightarrow> is_dir fs' (d @ p)"
  proof (intro allI impI)
    fix p x
    assume "lookup (snd (clone [])) (k # p) = Some (Dir x)"
    hence l: "lookup ?sc p = Some (Dir x)" using lookup_key[OF s(1)] by simp
    from copied_dir[OF dsc s(3) l] at show "is_dir fs' (d @ p)" by (simp add: is_dir_def)
  qed
  from 1 2 3 show ?thesis by blast
qed

theorem copy_superset_witness:
  "fst (run example_file example_clone []) = None
   \<and> distinct_names (snd (example_clone []))
   \<and> lookup (snd (run example_file example_clone [])) [''Evaluation'', ''try1'', ''data'', ''f.txt'']
       = Some (File ''a'')
   \<and> is_dir (snd (run example_file example_clone [])) [''Evaluation'', ''try1'']"
proof -
  have f0: "fst (run example_file example_clone []) = None"
    by (simp add: example_run_empty)
  hence h: "run example_file example_clone [] = (None, snd (run example_file example_clone []))"
    by (simp add: prod_eq_iff)
  note t = copy_superset [OF h example_distinct example_entry example_dest]
  have src: "lookup (snd (example_clone [])) [''data_vocab'', ''f.txt''] = Some (File ''a'')"
    by (simp add: example_clone_def)
  have free: "\<not> is_dir [] ([''Evaluation'', ''try1'', ''data''] @ [''f.txt''])"
    by (simp add: is_dir_def)
  from t src free
  have "lookup (snd (run example_file example_clone [])) ([''Evaluation'', ''try1'', ''data''] @ [''f.txt''])
       = Some (File ''a'')" by blast
  hence 1: "lookup (snd (run example_file example_clone [])) [''Evaluation'', ''try1'', ''data'', ''f.txt'']
       = Some (File ''a'')" by (simp only: append_Cons append_Nil)
  from t have "is_dir (snd (run example_file example_clone [])) (take 2 [''Evaluation'', ''try1'', ''data''])"
    by blast
  hence 2: "is_dir (snd (run example_file example_clone [])) [''Evaluation'', ''try1'']"
    by (simp only: take_Suc_Cons take_0 numeral_2_eq_2)
  show ?thesis by (intro conjI f0 example_distinct 1 2)
qed

text \<open>
  C4, as stated: a path of the destination that corresponds to no path of the source
  is left untouched, and a path that does correspond is overwritten with the source
  version. With the same directory \<^verbatim>\<open>f.txt\<close> in the destination, the file
  \<^verbatim>\<open>f.txt/f.txt\<close> in it corresponds to no source path (the source has the file
  \<^verbatim>\<open>f.txt\<close> and nothing below it) and yet is overwritten.
\<close>

theorem merge_semantics_counterexample:
  "lookup (snd (example_clone [])) [''data_vocab'', ''f.txt'', ''f.txt''] = None
   \<and> lookup example_fs [''Evaluation'', ''try1'', ''data'', ''f.txt'', ''f.txt''] = Some (File ''old'')
   \<and> lookup (snd (run example_file example_clone example_fs))
        [''Evaluation'', ''try1'', ''data'', ''f.txt'', ''f.txt''] = Some (File ''a'')"
  by (simp add: example_run) (simp add: example_clone_def example_fs_def)

text \<open>
  C4, amended: when no file of the cloned folder has its path at a directory of the
  destination, every path below the destination that corresponds to no path of the
  cloned folder is after the run what it was before it, whatever the outcome of the
  run; and after a successful run every path of a file of the cloned folder holds that
  file.
\<close>

theorem merge_semantics:
  assumes r: "run file clone fs = (e, fs')"
    and dn: "distinct_names (snd (clone []))"
    and m: "(k, ds) \<in> set (tasks (project_root file))"
    and d: "d \<in> set (dest_paths (project_root file) ds)"
    and nc: "\<forall>q c. lookup (snd (clone [])) (k # q) = Some (File c) \<longrightarrow> \<not> is_dir fs (d @ q)"
  shows "(\<forall>p. lookup (snd (clone [])) (k # p) = None \<longrightarrow> lookup fs' (d @ p) = lookup fs (d @ p))
       \<and> (e = None \<longrightarrow>
            (\<forall>p c. lookup (snd (clone [])) (k # p) = Some (File c) \<longrightarrow> lookup fs' (d @ p) = Some (File c)))"
proof -
  let ?sc = "subdir (snd (clone [])) [k]" and ?dc = "subdir fs d"
  have dsc: "distinct_names ?sc" using dn by (rule distinct_names_subdir)
  have 1: "\<forall>p. lookup (snd (clone [])) (k # p) = None \<longrightarrow> lookup fs' (d @ p) = lookup fs (d @ p)"
  proof (intro allI impI)
    fix p assume a: "lookup (snd (clone [])) (k # p) = None"
    from run_dest[OF r m d] show "lookup fs' (d @ p) = lookup fs (d @ p)"
    proof
      assume "lookup fs' d = lookup fs d"
      thus ?thesis by (simp add: lookup_append)
    next
      assume b: "is_dir (snd (clone [])) [k]
          \<and> lookup fs' d = Some (Dir (snd (copy_entries ?sc ?dc)))"
      hence kd: "is_dir (snd (clone [])) [k]" and at: "lookup fs' d = Some (Dir (snd (copy_entries ?sc ?dc)))"
        by simp_all
      from a lookup_key[OF kd] have l: "lookup ?sc p = None" by simp
      hence pn: "p \<noteq> []" by auto
      have h: "\<forall>q c. lookup ?sc q = Some (File c) \<longrightarrow> \<not> is_dir ?dc q"
      proof (intro allI impI)
        fix q c assume f: "lookup ?sc q = Some (File c)"
        hence "q \<noteq> []" by auto
        moreover from f nc lookup_key[OF kd] have "\<not> is_dir fs (d @ q)" by simp
        ultimately show "\<not> is_dir ?dc q" by (simp add: is_dir_below)
      qed
      have "lookup fs' (d @ p) = lookup (snd (copy_entries ?sc ?dc)) p"
        using at by (rule lookup_at_dir)
      also have "\<dots> = lookup ?dc p" by (rule copy_frame[OF dsc h l])
      also have "\<dots> = lookup fs (d @ p)" using pn by (simp add: lookup_below)
      finally show ?thesis .
    qed
  qed
  have 2: "e = None \<longrightarrow>
            (\<forall>p c. lookup (snd (clone [])) (k # p) = Some (File c) \<longrightarrow> lookup fs' (d @ p) = Some (File c))"
  proof (intro allI impI)
    fix p c
    assume en: "e = None" and a: "lookup (snd (clone [])) (k # p) = Some (File c)"
    note s = run_success[OF r[unfolded en] m d]
    from a lookup_key[OF s(1)] have l: "lookup ?sc p = Some (File c)" by simp
    hence "p \<noteq> []" by auto
    moreover from a nc have "\<not> is_dir fs (d @ p)" by blast
    ultimately have "\<not> is_dir ?dc p" by (simp add: is_dir_below)
    from copied_file[OF dsc s(3) l this] lookup_at_dir[OF s(2)]
    show "lookup fs' (d @ p) = Some (File c)" by simp
  qed
  from 1 2 show ?thesis by blast
qed

theorem merge_semantics_witness:
  "fst (run example_file example_clone example_kept) = None
   \<and> distinct_names (snd (example_clone []))
   \<and> lookup (snd (run example_file example_clone example_kept))
        [''Evaluation'', ''try1'', ''data'', ''keep.txt''] = Some (File ''k'')
   \<and> lookup (snd (run example_file example_clone example_kept))
        [''Evaluation'', ''try1'', ''data'', ''f.txt''] = Some (File ''a'')"
proof -
  have f0: "fst (run example_file example_clone example_kept) = None"
    by (simp add: example_run_kept)
  hence h: "run example_file example_clone example_kept
             = (None, snd (run example_file example_clone example_kept))"
    by (simp add: prod_eq_iff)
  have nc: "\<forall>q c. lookup (snd (example_clone [])) (''data_vocab'' # q) = Some (File c)
         \<longrightarrow> \<not> is_dir example_kept ([''Evaluation'', ''try1'', ''data''] @ q)"
  proof (intro allI impI)
    fix q c assume "lookup (snd (example_clone [])) (''data_vocab'' # q) = Some (File c)"
    hence "q = [''f.txt'']" by (rule example_source_files)
    thus "\<not> is_dir example_kept ([''Evaluation'', ''try1'', ''data''] @ q)"
      by (simp add: is_dir_def example_kept_def)
  qed
  note t = merge_semantics [OF h example_distinct example_entry example_dest nc]
  have absent: "lookup (snd (example_clone [])) [''data_vocab'', ''keep.txt''] = None"
    and present: "lookup (snd (example_clone [])) [''data_vocab'', ''f.txt''] = Some (File ''a'')"
    by (simp_all add: example_clone_def)
  from t absent
  have "lookup (snd (run example_file example_clone example_kept)) ([''Evaluation'', ''try1'', ''data''] @ [''keep.txt''])
      = lookup example_kept ([''Evaluation'', ''try1'', ''data''] @ [''keep.txt''])" by blast
  also have "\<dots> = Some (File ''k'')" by (simp add: example_kept_def)
  finally have 1: "lookup (snd (run example_file example_clone example_kept))
        [''Evaluation'', ''try1'', ''data'', ''keep.txt''] = Some (File ''k'')"
    by (simp only: append_Cons append_Nil)
  from t present
  have "lookup (snd (run example_file example_clone example_kept)) ([''Evaluation'', ''try1'', ''data''] @ [''f.txt''])
      = Some (File ''a'')" by blast
  hence 2: "lookup (snd (run example_file example_clone example_kept))
        [''Evaluation'', ''try1'', ''data'', ''f.txt''] = Some (File ''a'')"
    by (simp only: append_Cons append_Nil)
  show ?thesis by (intro conjI f0 example_distinct 1 2)
qed

text \<open>
  C7. A second run with the same remote, started on what the first run left, ends as
  the first run ended (without error when the first had none, with the same error
  otherwise), and every destination, with every path below it, is after the second
  run what it was after the first.
\<close>

theorem second_run_same:
  assumes r: "run file clone fs = (e, fs1)"
    and dn: "distinct_names (snd (clone []))"
  shows "\<exists>fs2. run file clone fs1 = (e, fs2)
           \<and> (\<forall>d\<in>set (all_dests (project_root file) (tasks (project_root file))).
                 \<forall>p. lookup fs2 (d @ p) = lookup fs1 (d @ p))"
proof -
  let ?pr = "project_root file" and ?r = "snd (clone [])"
  let ?all = "all_dests ?pr (tasks ?pr)"
  obtain e0 fsA where f1: "fetch file clone fs = (e0, fsA)" by (cases "fetch file clone fs")
  have "\<exists>fs2. run file clone fs1 = (e, fs2) \<and> (\<forall>d\<in>set ?all. lookup fs2 d = lookup fs1 d)"
  proof (cases e0)
    case (Some err)
    with f1 r have e: "e = Some err" and fs1: "fs1 = fsA" by (simp_all add: run_def)
    from fetch_failed_again f1 Some obtain fs2 where f2: "fetch file clone fsA = (Some err, fs2)"
      by blast
    hence "run file clone fs1 = (e, fs2)" using e fs1 by (simp add: run_def)
    moreover have "\<forall>d\<in>set ?all. lookup fs2 d = lookup fs1 d"
      using dest_head fetch_frame[OF f2] fs1 by metis
    ultimately show ?thesis by blast
  next
    case None
    with f1 have f: "fetch file clone fs = (None, fsA)" by simp
    from run_copy[OF f] r
    have c: "copy_tasks ?pr (joinpath ?pr ''tmp_hf_repo'') (tasks ?pr) fsA = (e, fs1)" by simp
    from fetch_ok[OF f] have ok: "fst (clone [])"
      and tmpA: "lookup fsA [''tmp_hf_repo''] = Some (Dir ?r)" by simp_all
    from run_keeps_clone[OF f] r have tmp1: "lookup fs1 [''tmp_hf_repo''] = Some (Dir ?r)"
      by (auto simp: tmp_dir_eq)
    hence "is_dir fs1 (tmp_dir file)" by (simp add: is_dir_def tmp_dir_eq)
    from fetch_existing[OF this, of clone] ok obtain fsB
      where fB: "fetch file clone fs1 = (None, fsB)"
        and tmpB: "\<forall>p. lookup fsB (tmp_dir file @ p) = lookup ?r p" by auto
    have keyA: "\<And>p. lookup fsA (''tmp_hf_repo'' # p) = lookup ?r p"
      using lookup_at_dir[OF tmpA] by simp
    have keyB: "\<And>p. lookup fsB (''tmp_hf_repo'' # p) = lookup ?r p"
      using tmpB by (simp add: tmp_dir_eq)
    have keys: "\<forall>k. lookup fsB [''tmp_hf_repo'', k] = lookup fsA [''tmp_hf_repo'', k]"
      by (simp only: keyA keyB) simp
    have dnA: "\<forall>k. distinct_names (subdir fsA [''tmp_hf_repo'', k])"
    proof
      fix k
      have "subdir fsA [''tmp_hf_repo'', k] = subdir ?r [k]"
        using keyA[of "[k]"] by (simp add: subdir_def)
      thus "distinct_names (subdir fsA [''tmp_hf_repo'', k])"
        using distinct_names_subdir[OF dn] by simp
    qed
    have same: "\<forall>d\<in>set ?all. lookup fsB d = lookup fs1 d"
      using dest_head fetch_frame[OF fB] by metis
    have mk: "\<forall>d\<in>set ?all. mkdir_error_of fsB d = mkdir_error_of fs1 d"
      using dest_head mkdir_error_fetch[OF fB] by metis
    from copy_tasks_replay[OF tasks_off_tmp tasks_apart keys dnA c same mk] obtain fs2
      where c2: "copy_tasks ?pr (joinpath ?pr ''tmp_hf_repo'') (tasks ?pr) fsB = (e, fs2)"
        and eq: "\<forall>d\<in>set ?all. lookup fs2 d = lookup fs1 d" by blast
    from run_copy[OF fB] c2 have "run file clone fs1 = (e, fs2)" by simp
    with eq show ?thesis by blast
  qed
  then obtain fs2 where r2: "run file clone fs1 = (e, fs2)"
    and eq: "\<forall>d\<in>set ?all. lookup fs2 d = lookup fs1 d" by blast
  have "\<forall>d\<in>set ?all. \<forall>p. lookup fs2 (d @ p) = lookup fs1 (d @ p)"
    using eq by (simp add: lookup_append)
  with r2 show ?thesis by blast
qed

theorem second_run_same_witness:
  "fst (run example_file example_clone []) = None
   \<and> distinct_names (snd (example_clone []))
   \<and> (\<exists>fs2. run example_file example_clone (snd (run example_file example_clone [])) = (None, fs2)
        \<and> lookup fs2 [''Evaluation'', ''try1'', ''data'', ''f.txt'']
          = lookup (snd (run example_file example_clone [])) [''Evaluation'', ''try1'', ''data'', ''f.txt''])"
proof -
  have f0: "fst (run example_file example_clone []) = None"
    by (simp add: example_run_empty)
  hence h: "run example_file example_clone [] = (None, snd (run example_file example_clone []))"
    by (simp add: prod_eq_iff)
  from second_run_same [OF h example_distinct] obtain fs2 where
    r2: "run example_file example_clone (snd (run example_file example_clone [])) = (None, fs2)"
    and eq: "\<forall>d\<in>set (all_dests (project_root example_file) (tasks (project_root example_file))).
               \<forall>p. lookup fs2 (d @ p) = lookup (snd (run example_file example_clone [])) (d @ p)"
    by blast
  have "[''Evaluation'', ''try1'', ''data'']
          \<in> set (all_dests (project_root example_file) (tasks (project_root example_file)))"
    by (simp add: tasks_dests)
  with eq have "lookup fs2 ([''Evaluation'', ''try1'', ''data''] @ [''f.txt''])
      = lookup (snd (run example_file example_clone [])) ([''Evaluation'', ''try1'', ''data''] @ [''f.txt''])"
    by blast
  hence "lookup fs2 [''Evaluation'', ''try1'', ''data'', ''f.txt'']
      = lookup (snd (run example_file example_clone [])) [''Evaluation'', ''try1'', ''data'', ''f.txt'']"
    by (simp only: append_Cons append_Nil)
  with r2 have "\<exists>fs2. run example_file example_clone (snd (run example_file example_clone [])) = (None, fs2)
        \<and> lookup fs2 [''Evaluation'', ''try1'', ''data'', ''f.txt'']
          = lookup (snd (run example_file example_clone [])) [''Evaluation'', ''try1'', ''data'', ''f.txt'']"
    by blast
  with f0 example_distinct show ?thesis by blast
qed

end
